theory Spec2Isabelle
  imports Main
begin

section \<open>The presence store (src/state.js)\<close>

text \<open>
  The store is a proxied object \<open>target\<close>, a set of subscribers, the flag
  \<open>batching\<close> and the buffer \<open>pendingChanges\<close>. A field name is a \<open>'k\<close>,
  a field value a \<open>'v\<close>; equality on \<open>'v\<close> stands for the \<open>===\<close> of the
  proxy's \<open>set\<close> trap. A subscriber is an observer \<open>'f\<close>: each of its calls
  \<open>fn(prop, value, oldValue)\<close> is appended to \<open>delivered\<close>, in call order
  (subscribers are kept in insertion order, as a JavaScript \<open>Set\<close> iterates).
\<close>

type_synonym ('k, 'v) change = "'k \<times> 'v \<times> 'v"

record ('k, 'v, 'f) store =
  target :: "'k \<Rightarrow> 'v"
  subscribers :: "'f list"
  batching :: bool
  pendingChanges :: "('k, 'v) change list"
  delivered :: "('f \<times> 'k \<times> 'v \<times> 'v) list"

text \<open>\<open>for (const fn of subscribers) fn(prop, value, oldValue)\<close>\<close>

definition call_subscribers ::
  "'f list \<Rightarrow> ('k, 'v) change \<Rightarrow> ('f \<times> 'k \<times> 'v \<times> 'v) list" where
  "call_subscribers subs c = map (\<lambda>fn. (fn, c)) subs"

definition notify ::
  "'k \<Rightarrow> 'v \<Rightarrow> 'v \<Rightarrow> ('k, 'v, 'f) store \<Rightarrow> ('k, 'v, 'f) store" where
  "notify prop val oldValue st =
     (if batching st
      then st\<lparr>pendingChanges := pendingChanges st @ [(prop, val, oldValue)]\<rparr>
      else st\<lparr>delivered := delivered st @ call_subscribers (subscribers st) (prop, val, oldValue)\<rparr>)"

text \<open>The \<open>set\<close> trap of the proxy: an assignment \<open>state[prop] = value\<close>.\<close>

definition set_prop ::
  "'k \<Rightarrow> 'v \<Rightarrow> ('k, 'v, 'f) store \<Rightarrow> ('k, 'v, 'f) store" where
  "set_prop prop val st =
     (let old = target st prop in
      if old = val then st
      else notify prop val old (st\<lparr>target := (target st)(prop := val)\<rparr>))"

text \<open>
  The body \<open>fn\<close> of a batch is the sequence of assignments it performs, in order.
\<close>

definition run_body ::
  "('k \<times> 'v) list \<Rightarrow> ('k, 'v, 'f) store \<Rightarrow> ('k, 'v, 'f) store" where
  "run_body fn st = foldl (\<lambda>s (prop, val). set_prop prop val s) st fn"

text \<open>
  The \<open>Map\<close> of \<open>batch\<close>, in insertion order: an entry is \<open>(prop, value, oldValue)\<close>.
  \<open>if (map.has(c.prop)) map.get(c.prop).value = c.value; else map.set(c.prop, {...})\<close>
\<close>

definition map_has :: "('k, 'v) change list \<Rightarrow> 'k \<Rightarrow> bool" where
  "map_has m prop = (prop \<in> fst ` set m)"

definition coalesce_step :: "('k, 'v) change list \<Rightarrow> ('k, 'v) change \<Rightarrow> ('k, 'v) change list" where
  "coalesce_step m c =
     (case c of (prop, val, oldValue) \<Rightarrow>
        if map_has m prop
        then map (\<lambda>(q, v', old'). if q = prop then (q, val, old') else (q, v', old')) m
        else m @ [(prop, val, oldValue)])"

definition coalesce :: "('k, 'v) change list \<Rightarrow> ('k, 'v) change list" where
  "coalesce changes = foldl coalesce_step [] changes"

definition batch ::
  "('k \<times> 'v) list \<Rightarrow> ('k, 'v, 'f) store \<Rightarrow> ('k, 'v, 'f) store" where
  "batch fn st =
     (let st1 = st\<lparr>batching := True\<rparr>;
          st2 = run_body fn st1;
          st3 = st2\<lparr>batching := False\<rparr>;
          changes = pendingChanges st3;
          st4 = st3\<lparr>pendingChanges := []\<rparr>;
          m = coalesce changes
      in st4\<lparr>delivered := delivered st4 @ concat (map (call_subscribers (subscribers st4)) m)\<rparr>)"

text \<open>
  The older generation of the store (kept in the repository's history) coalesces with
  \<open>for (const c of changes) map.set(c.prop, c)\<close>: the last change of a field replaces
  the entry whole.
\<close>

definition coalesce_step_old :: "('k, 'v) change list \<Rightarrow> ('k, 'v) change \<Rightarrow> ('k, 'v) change list" where
  "coalesce_step_old m c =
     (if map_has m (fst c)
      then map (\<lambda>e. if fst e = fst c then c else e) m
      else m @ [c])"

definition batch_old ::
  "('k \<times> 'v) list \<Rightarrow> ('k, 'v, 'f) store \<Rightarrow> ('k, 'v, 'f) store" where
  "batch_old fn st =
     (let st1 = st\<lparr>batching := True\<rparr>;
          st2 = run_body fn st1;
          st3 = st2\<lparr>batching := False\<rparr>;
          changes = pendingChanges st3;
          st4 = st3\<lparr>pendingChanges := []\<rparr>;
          m = foldl coalesce_step_old [] changes
      in st4\<lparr>delivered := delivered st4 @ concat (map (call_subscribers (subscribers st4)) m)\<rparr>)"

text \<open>What the claims speak of: the fields in the order a body first assigns them, the
  last value a body assigns to a field, and the calls a batch adds.\<close>

definition first_assigned :: "('k \<times> 'v) list \<Rightarrow> 'k list" where
  "first_assigned fn = rev (remdups (rev (map fst fn)))"

definition last_assigned :: "('k \<times> 'v) list \<Rightarrow> 'k \<Rightarrow> 'v option" where
  "last_assigned fn prop = map_of (rev fn) prop"

definition batch_calls ::
  "('k \<times> 'v) list \<Rightarrow> ('k, 'v, 'f) store \<Rightarrow> ('f \<times> 'k \<times> 'v \<times> 'v) list" where
  "batch_calls fn st = drop (length (delivered st)) (delivered (batch fn st))"

section \<open>The room module (peer.js) over the store's fields\<close>

text \<open>
  One record holds the fields of the store's \<open>initial\<close> object (src/state.js), the
  module variables of peer.js, and what the module reads from its collaborators: the media
  engine (\<open>localStream\<close>, \<open>audioCtx\<close>, the real track's \<open>enabled\<close> flag), the
  browser's timers and the commands and messages it hands to the transport
  (\<open>effects\<close>, in call order). A field assignment of peer.js is a record update: a
  \<open>batch\<close> around assignments changes when subscribers are called, not the fields.
  The fields of a roster entry and of a knock request carry a prefix (\<open>p_\<close>, \<open>k_\<close>)
  where the store has a field of the same name.

  Of the six send functions the code tests only \<open>sendKnockMsg\<close> (in \<open>sendKnock\<close>); the
  others are assigned and cleared together with it and are called from handlers that exist
  only while the room is joined, so their calls are recorded as they stand. The wake lock
  and the \<open>location.hash\<close> are left out.
\<close>

datatype view = VLoading | VRoom | VKnocking | VRejected

datatype track = RealTrack | SilentTrack

record peer =
  peerId :: string
  p_username :: string
  p_isTalking :: bool
  p_isIdle :: bool
  p_isWhispering :: "bool option"

record knock =
  k_peerId :: string
  k_username :: string

text \<open>The payloads of the \<open>knock\<close> channel: \<open>Mode enabled creatorId\<close>,
  \<open>Reply targetPeerId approved\<close>.\<close>

datatype knock_msg = Required | Admitted | Mode bool string | Reply string bool

text \<open>What the module asks of the transport; the second argument of a send is the
  addressee (\<open>None\<close>: every peer).\<close>

datatype effect =
    SendKnock knock_msg "string option"
  | SendUsername string string
  | SendWhisper bool string
  | AddStream string
  | ReplaceTrack track track string

datatype timer_cb = AdmitCallback | RejectCallback

datatype update = SetUsername string | SetTalking bool | SetWhispering bool | SetIdle bool

record session =
  view :: view
  error :: "string option"
  offline :: bool
  username :: string
  roomCode :: string
  myPeerId :: string
  peers :: "peer list"
  isTalking :: bool
  whisperTarget :: "string option"
  noMic :: bool
  knockEnabled :: bool
  admitted :: bool
  knockWaiting :: bool
  pendingKnocks :: "knock list"
  isCreator :: bool
  creatorId :: "string option"
  selfId :: string
  room :: bool
  sendKnockMsg :: bool
  peerTrackState :: "string \<rightharpoonup> track"
  activeWhisperTarget :: "string option"
  audioEls :: "string list"
  pendingPeerInfo :: "(string \<times> string) list"
  admitTimeout :: "nat option"
  localStream :: bool
  audioCtx :: bool
  trackEnabled :: bool
  timers :: "(nat \<times> nat \<times> timer_cb) list"
  nextTimer :: nat
  effects :: "effect list"

text \<open>
  \<open>initial\<close> of src/state.js (\<open>offline\<close> and \<open>username\<close> come from the browser)
  with the initial values of the module variables of peer.js; \<open>selfId\<close> is the
  transport's constant identifier of this client. Timer handles start at 1: a handle is
  truthy.
\<close>

definition initial :: "string \<Rightarrow> bool \<Rightarrow> string \<Rightarrow> session" where
  "initial sid off uname =
     \<lparr>view = VLoading, error = None, offline = off, username = uname, roomCode = [],
      myPeerId = [], peers = [], isTalking = False, whisperTarget = None, noMic = False,
      knockEnabled = False, admitted = True, knockWaiting = False, pendingKnocks = [],
      isCreator = False, creatorId = None,
      selfId = sid, room = False, sendKnockMsg = False, peerTrackState = Map.empty,
      activeWhisperTarget = None, audioEls = [], pendingPeerInfo = [], admitTimeout = None,
      localStream = False, audioCtx = False, trackEnabled = False,
      timers = [], nextTimer = 1, effects = []\<rparr>"

text \<open>Truthiness of a string or \<open>null\<close>/\<open>undefined\<close>: the empty string is falsy.\<close>

definition truthy :: "string option \<Rightarrow> bool" where
  "truthy x = (case x of None \<Rightarrow> False | Some v \<Rightarrow> v \<noteq> [])"

subsection \<open>The media engine (audio.js), as far as peer.js reads it\<close>

definition getStream :: "session \<Rightarrow> bool" where
  "getStream s = localStream s"

definition getRealTrack :: "session \<Rightarrow> bool" where
  "getRealTrack s = localStream s"

text \<open>The silent track is made on demand from the audio context and dropped with it.\<close>

definition getSilentTrack :: "session \<Rightarrow> bool" where
  "getSilentTrack s = audioCtx s"

text \<open>\<open>try { await initAudio(); } catch { initAudioContext(); state.noMic = true; }\<close>:
  \<open>mic\<close> says whether the microphone was granted.\<close>

definition initAudio_or_fallback :: "bool \<Rightarrow> session \<Rightarrow> session" where
  "initAudio_or_fallback mic s =
     (if mic then s\<lparr>localStream := True, trackEnabled := False, audioCtx := True\<rparr>
      else s\<lparr>audioCtx := True, noMic := True\<rparr>)"

definition destroyAudio :: "session \<Rightarrow> session" where
  "destroyAudio s = s\<lparr>localStream := False, audioCtx := False\<rparr>"

subsection \<open>Timers\<close>

text \<open>\<open>setTimeout(cb, delay)\<close> adds a live timer and returns its handle;
  \<open>clearTimeout\<close> removes it. A live timer is \<open>(handle, delay, callback)\<close>.\<close>

definition setTimeout :: "timer_cb \<Rightarrow> nat \<Rightarrow> session \<Rightarrow> nat \<times> session" where
  "setTimeout cb delay s =
     (nextTimer s, s\<lparr>timers := timers s @ [(nextTimer s, delay, cb)], nextTimer := Suc (nextTimer s)\<rparr>)"

definition clearTimeout :: "nat \<Rightarrow> session \<Rightarrow> session" where
  "clearTimeout h s = s\<lparr>timers := filter (\<lambda>t. fst t \<noteq> h) (timers s)\<rparr>"

subsection \<open>Helpers of peer.js\<close>

definition chars :: string where
  "chars = ''ABCDEFGHJKLMNPQRSTUVWXYZ23456789''"

text \<open>\<open>genCode\<close>: \<open>draws\<close> are the four values of
  \<open>Math.floor(Math.random() * chars.length)\<close>, each below 32.\<close>

definition genCode :: "nat list \<Rightarrow> string" where
  "genCode draws = foldl (\<lambda>code d. code @ [chars ! d]) [] (take 4 draws)"

definition apply_update :: "update \<Rightarrow> peer \<Rightarrow> peer" where
  "apply_update u p =
     (case u of
        SetUsername n \<Rightarrow> p\<lparr>p_username := n\<rparr>
      | SetTalking b \<Rightarrow> p\<lparr>p_isTalking := b\<rparr>
      | SetWhispering b \<Rightarrow> p\<lparr>p_isWhispering := Some b\<rparr>
      | SetIdle b \<Rightarrow> p\<lparr>p_isIdle := b\<rparr>)"

definition updatePeer :: "string \<Rightarrow> update \<Rightarrow> session \<Rightarrow> session" where
  "updatePeer pid u s =
     s\<lparr>peers := map (\<lambda>p. if peerId p = pid then apply_update u p else p) (peers s)\<rparr>"

text \<open>\<open>a || b\<close> on strings: \<open>b\<close> when \<open>a\<close> is \<open>null\<close>, \<open>undefined\<close> or empty.\<close>

definition or_else :: "string option \<Rightarrow> string \<Rightarrow> string" where
  "or_else a b = (case a of None \<Rightarrow> b | Some v \<Rightarrow> if v = [] then b else v)"

definition makePeer :: "string \<Rightarrow> string option \<Rightarrow> peer" where
  "makePeer pid uname =
     \<lparr>peerId = pid, p_username = or_else uname pid,
      p_isTalking = False, p_isIdle = False, p_isWhispering = None\<rparr>"

definition removeKnock :: "string \<Rightarrow> session \<Rightarrow> session" where
  "removeKnock pid s = s\<lparr>pendingKnocks := filter (\<lambda>k. k_peerId k \<noteq> pid) (pendingKnocks s)\<rparr>"

definition sendKnock :: "knock_msg \<Rightarrow> string option \<Rightarrow> session \<Rightarrow> session" where
  "sendKnock msg dest s =
     (if sendKnockMsg s then s\<lparr>effects := effects s @ [SendKnock msg dest]\<rparr> else s)"

definition emit :: "effect \<Rightarrow> session \<Rightarrow> session" where
  "emit e s = s\<lparr>effects := effects s @ [e]\<rparr>"

text \<open>\<open>pendingPeerInfo\<close> is a \<open>Map\<close>: \<open>set\<close> on a key it has keeps the key's place.\<close>

definition pp_set :: "string \<Rightarrow> string \<Rightarrow> (string \<times> string) list \<Rightarrow> (string \<times> string) list" where
  "pp_set pid uname m =
     (if pid \<in> fst ` set m then map (\<lambda>(q, n). if q = pid then (q, uname) else (q, n)) m
      else m @ [(pid, uname)])"

subsection \<open>Knock helpers\<close>

definition moveKnockToPeers :: "string \<Rightarrow> session \<Rightarrow> session" where
  "moveKnockToPeers pid s =
     (if find (\<lambda>p. peerId p = pid) (peers s) \<noteq> None then s
      else let knock = find (\<lambda>k. k_peerId k = pid) (pendingKnocks s)
           in s\<lparr>peers := peers s @ [makePeer pid (map_option k_username knock)]\<rparr>)"

text \<open>The body of the loop of \<open>admitSelf\<close> that sends the own stream to a peer.\<close>

definition addStream_unless_self :: "session \<Rightarrow> peer \<Rightarrow> session" where
  "addStream_unless_self st p =
     (if peerId p = selfId st then st else emit (AddStream (peerId p)) st)"

text \<open>The body of the loop over the pending knocks when a \<open>mode\<close> message turns
  knocking off.\<close>

definition promote_knock :: "session \<Rightarrow> knock \<Rightarrow> session" where
  "promote_knock st k = moveKnockToPeers (k_peerId k) st"

definition admitSelf :: "session \<Rightarrow> session" where
  "admitSelf s =
     (if admitted s then s
      else
        let s1 = (case admitTimeout s of
                    None \<Rightarrow> s
                  | Some h \<Rightarrow> (clearTimeout h s)\<lparr>admitTimeout := None\<rparr>);
            s2 = s1\<lparr>admitted := True, view := VRoom,
                    peers := makePeer (selfId s1) (Some (username s1))
                             # map (\<lambda>(pid, n). makePeer pid (Some n)) (pendingPeerInfo s1)\<rparr>;
            s3 = s2\<lparr>pendingPeerInfo := []\<rparr>
        in if getStream s3 \<and> room s3
           then foldl addStream_unless_self s3 (peers s3)
           else s3)"

subsection \<open>Room setup and the receive handlers\<close>

definition setupRoom :: "string \<Rightarrow> session \<Rightarrow> session" where
  "setupRoom code s =
     (let s1 = s\<lparr>room := True, sendKnockMsg := True\<rparr>;
          s2 = s1\<lparr>myPeerId := selfId s1, roomCode := code\<rparr>
      in if admitted s2
         then s2\<lparr>view := VRoom, peers := [makePeer (selfId s2) (Some (username s2))]\<rparr>
         else s2\<lparr>view := VKnocking, peers := []\<rparr>)"

definition getUsername :: "string \<Rightarrow> string \<Rightarrow> session \<Rightarrow> session" where
  "getUsername uname pid s =
     (let s1 = updatePeer pid (SetUsername uname) s;
          s2 = (if list_ex (\<lambda>k. k_peerId k = pid) (pendingKnocks s1)
                then s1\<lparr>pendingKnocks :=
                        map (\<lambda>k. if k_peerId k = pid then k\<lparr>k_username := uname\<rparr> else k)
                          (pendingKnocks s1)\<rparr>
                else s1)
      in if pid \<in> fst ` set (pendingPeerInfo s2)
         then s2\<lparr>pendingPeerInfo := pp_set pid uname (pendingPeerInfo s2)\<rparr>
         else s2)"

definition getTalking :: "bool \<Rightarrow> string \<Rightarrow> session \<Rightarrow> session" where
  "getTalking b pid s = updatePeer pid (SetTalking b) s"

definition getWhisper :: "bool \<Rightarrow> string \<Rightarrow> session \<Rightarrow> session" where
  "getWhisper b pid s = updatePeer pid (SetWhispering b) s"

definition getRename :: "string \<Rightarrow> string \<Rightarrow> session \<Rightarrow> session" where
  "getRename uname pid s = updatePeer pid (SetUsername uname) s"

definition getIdle :: "bool \<Rightarrow> string \<Rightarrow> session \<Rightarrow> session" where
  "getIdle b pid s = updatePeer pid (SetIdle b) s"

text \<open>The \<open>reply\<close> branch arms the two-second timer whose callback is
  \<open>leaveRoom(); createRoom()\<close>.\<close>

definition getKnock :: "knock_msg \<Rightarrow> string \<Rightarrow> session \<Rightarrow> session" where
  "getKnock msg sender s =
     (case msg of
        Admitted \<Rightarrow> admitSelf s
      | Mode enabled cid \<Rightarrow>
          (let s1 = s\<lparr>knockEnabled := enabled, creatorId := Some cid\<rparr>
           in if \<not> enabled \<and> length (pendingKnocks s1) > 0
              then (foldl promote_knock s1 (pendingKnocks s1))\<lparr>pendingKnocks := []\<rparr>
              else s1)
      | Reply targetPeerId approved \<Rightarrow>
          (if targetPeerId = selfId s
           then (if approved then admitSelf s
                 else snd (setTimeout RejectCallback 2000 (s\<lparr>view := VRejected\<rparr>)))
           else if admitted s
           then removeKnock targetPeerId
                  (if approved then moveKnockToPeers targetPeerId s else s)
           else s)
      | Required \<Rightarrow> s)"

definition onPeerJoin :: "string \<Rightarrow> session \<Rightarrow> session" where
  "onPeerJoin pid s =
     (if admitted s then
        (if knockEnabled s then
           (let s1 = (if find (\<lambda>k. k_peerId k = pid) (pendingKnocks s) = None
                      then s\<lparr>pendingKnocks := pendingKnocks s @ [\<lparr>k_peerId = pid, k_username = pid\<rparr>]\<rparr>
                      else s);
                s2 = sendKnock Required (Some pid) s1;
                s3 = sendKnock (Mode True (or_else (creatorId s2) (selfId s2)))
                       (Some pid) s2;
                s4 = (if getStream s3 then emit (AddStream pid) s3 else s3)
            in emit (SendUsername (username s4) pid) s4)
         else
           (let s1 = (if find (\<lambda>p. peerId p = pid) (peers s) = None
                      then s\<lparr>peers := peers s @ [makePeer pid None]\<rparr>
                      else s);
                s2 = sendKnock Admitted (Some pid) s1;
                s3 = emit (SendUsername (username s2) pid) s2
            in if getStream s3 then
                 (let s4 = emit (AddStream pid) s3
                  in if truthy (activeWhisperTarget s4) \<and> Some pid \<noteq> activeWhisperTarget s4
                     then (if getRealTrack s4 \<and> getSilentTrack s4
                           then (emit (ReplaceTrack RealTrack SilentTrack pid) s4)
                                  \<lparr>peerTrackState := (peerTrackState s4)(pid \<mapsto> SilentTrack)\<rparr>
                           else s4)
                     else s4)
               else s3))
      else
        emit (SendUsername (username s) pid)
          (s\<lparr>pendingPeerInfo := pp_set pid pid (pendingPeerInfo s)\<rparr>))"

definition removeRemoteAudio :: "string \<Rightarrow> session \<Rightarrow> session" where
  "removeRemoteAudio pid s = s\<lparr>audioEls := filter (\<lambda>q. q \<noteq> pid) (audioEls s)\<rparr>"

definition onPeerLeave :: "string \<Rightarrow> session \<Rightarrow> session" where
  "onPeerLeave pid s =
     (let s1 = s\<lparr>peers := filter (\<lambda>p. peerId p \<noteq> pid) (peers s)\<rparr>;
          s2 = removeKnock pid s1;
          s3 = s2\<lparr>pendingPeerInfo := filter (\<lambda>e. fst e \<noteq> pid) (pendingPeerInfo s2)\<rparr>;
          s4 = removeRemoteAudio pid s3;
          s5 = s4\<lparr>peerTrackState := (peerTrackState s4)(pid := None)\<rparr>
      in if Some pid = creatorId s5
         then s5\<lparr>knockEnabled := False, creatorId := None\<rparr>
         else s5)"

definition onPeerStream :: "string \<Rightarrow> session \<Rightarrow> session" where
  "onPeerStream pid s =
     (if pid \<in> set (audioEls s) then s else s\<lparr>audioEls := audioEls s @ [pid]\<rparr>)"

subsection \<open>Whisper\<close>

definition current_track :: "session \<Rightarrow> string \<Rightarrow> track" where
  "current_track s pid = (case peerTrackState s pid of None \<Rightarrow> RealTrack | Some t \<Rightarrow> t)"

text \<open>The bodies of the loops of \<open>startWhisper\<close> and \<open>stopWhisper\<close> over the roster.\<close>

definition route_whisper :: "string \<Rightarrow> session \<Rightarrow> peer \<Rightarrow> session" where
  "route_whisper targetPeerId st p =
     (if peerId p = selfId st then st
      else if peerId p = targetPeerId
      then (if current_track st (peerId p) = SilentTrack
            then (emit (ReplaceTrack SilentTrack RealTrack (peerId p)) st)
                   \<lparr>peerTrackState := (peerTrackState st)(peerId p \<mapsto> RealTrack)\<rparr>
            else st)
      else (if current_track st (peerId p) = RealTrack
            then (emit (ReplaceTrack RealTrack SilentTrack (peerId p)) st)
                   \<lparr>peerTrackState := (peerTrackState st)(peerId p \<mapsto> SilentTrack)\<rparr>
            else st))"

definition route_normal :: "session \<Rightarrow> peer \<Rightarrow> session" where
  "route_normal st p =
     (if peerId p = selfId st then st
      else if current_track st (peerId p) = SilentTrack
      then (emit (ReplaceTrack SilentTrack RealTrack (peerId p)) st)
             \<lparr>peerTrackState := (peerTrackState st)(peerId p \<mapsto> RealTrack)\<rparr>
      else st)"

definition startWhisper :: "string \<Rightarrow> session \<Rightarrow> session" where
  "startWhisper targetPeerId s =
     (if \<not> (getRealTrack s \<and> getSilentTrack s \<and> room s \<and> getStream s) then s
      else
        let s1 = s\<lparr>activeWhisperTarget := Some targetPeerId, trackEnabled := True\<rparr>;
            s2 = foldl (route_whisper targetPeerId) s1 (peers s1)
        in emit (SendWhisper True targetPeerId) s2)"

definition stopWhisper :: "string \<Rightarrow> session \<Rightarrow> session" where
  "stopWhisper targetPeerId s =
     (if \<not> (getRealTrack s \<and> getSilentTrack s \<and> room s \<and> getStream s) then s
      else
        let s1 = s\<lparr>activeWhisperTarget := None, trackEnabled := False\<rparr>;
            s2 = foldl route_normal s1 (peers s1)
        in emit (SendWhisper False targetPeerId) s2)"

text \<open>The whisper hold of ui.js, which owns the store's \<open>whisperTarget\<close>.\<close>

definition whisperStart :: "string \<Rightarrow> session \<Rightarrow> session" where
  "whisperStart pid s =
     (if isTalking s \<or> truthy (whisperTarget s) then s
      else startWhisper pid (s\<lparr>whisperTarget := Some pid\<rparr>))"

definition whisperStop :: "session \<Rightarrow> session" where
  "whisperStop s =
     (if \<not> truthy (whisperTarget s) then s
      else stopWhisper (or_else (whisperTarget s) []) (s\<lparr>whisperTarget := None\<rparr>))"

subsection \<open>Public operations\<close>

text \<open>The body of the loop of \<open>toggleKnockMode\<close> over the pending knocks.\<close>

definition reply_and_promote :: "session \<Rightarrow> knock \<Rightarrow> session" where
  "reply_and_promote st k =
     moveKnockToPeers (k_peerId k) (sendKnock (Reply (k_peerId k) True) None st)"

definition toggleKnockMode :: "session \<Rightarrow> session" where
  "toggleKnockMode s =
     (if creatorId s \<noteq> Some (myPeerId s) then s
      else
        let enabled = \<not> knockEnabled s;
            s1 = s\<lparr>knockEnabled := enabled\<rparr>;
            s2 = (if \<not> enabled \<and> length (pendingKnocks s1) > 0
                  then (foldl reply_and_promote s1 (pendingKnocks s1))\<lparr>pendingKnocks := []\<rparr>
                  else s1)
        in sendKnock (Mode enabled (selfId s2)) None s2)"

definition resolveKnock :: "string \<Rightarrow> bool \<Rightarrow> session \<Rightarrow> session" where
  "resolveKnock pid approved s =
     (let s1 = sendKnock (Reply pid approved) None s;
          s2 = (if approved then moveKnockToPeers pid s1 else s1)
      in removeKnock pid s2)"

text \<open>
  \<open>createRoom\<close> and \<open>joinRoom\<close> are \<open>async\<close>: each runs to its
  \<open>await initAudio()\<close> and is resumed in a later turn of the event loop, when the
  microphone has answered (\<open>mic\<close>); other events may run in between. \<open>_begin\<close> is
  the part before the \<open>await\<close>, \<open>_resume\<close> the part after it (for \<open>createRoom\<close>
  with the code drawn before the \<open>await\<close>), and \<open>createRoom\<close>, \<open>joinRoom\<close> are the
  runs in which nothing comes in between.
\<close>

definition createRoom_begin :: "session \<Rightarrow> session" where
  "createRoom_begin s = s\<lparr>admitted := True, creatorId := None\<rparr>"

definition createRoom_resume :: "string \<Rightarrow> bool \<Rightarrow> session \<Rightarrow> session" where
  "createRoom_resume code mic s =
     (let s2 = initAudio_or_fallback mic s;
          s3 = setupRoom code s2
      in s3\<lparr>creatorId := Some (selfId s3)\<rparr>)"

definition createRoom :: "nat list \<Rightarrow> bool \<Rightarrow> session \<Rightarrow> session" where
  "createRoom draws mic s = createRoom_resume (genCode draws) mic (createRoom_begin s)"

text \<open>\<open>code.toUpperCase().trim()\<close>, on ASCII text.\<close>

definition toUpperCase :: "string \<Rightarrow> string" where
  "toUpperCase str =
     map (\<lambda>c. let n = (of_char c :: nat) in if 97 \<le> n \<and> n \<le> 122 then char_of (n - 32) else c) str"

definition is_space :: "char \<Rightarrow> bool" where
  "is_space c = ((of_char c :: nat) \<in> {9, 10, 11, 12, 13, 32})"

definition trim :: "string \<Rightarrow> string" where
  "trim str = rev (dropWhile is_space (rev (dropWhile is_space str)))"

definition joinRoom_begin :: "string \<Rightarrow> session \<Rightarrow> session" where
  "joinRoom_begin code0 s =
     (let code = trim (toUpperCase code0)
      in if code = [] then s else s\<lparr>admitted := False\<rparr>)"

definition joinRoom_resume :: "string \<Rightarrow> bool \<Rightarrow> session \<Rightarrow> session" where
  "joinRoom_resume code0 mic s =
     (let code = trim (toUpperCase code0)
      in if code = [] then s
         else
           let s2 = initAudio_or_fallback mic s;
               s3 = setupRoom code s2;
               (h, s4) = setTimeout AdmitCallback 3000 s3
           in s4\<lparr>admitTimeout := Some h\<rparr>)"

definition joinRoom :: "string \<Rightarrow> bool \<Rightarrow> session \<Rightarrow> session" where
  "joinRoom code0 mic s = joinRoom_resume code0 mic (joinRoom_begin code0 s)"

definition cleanup :: "session \<Rightarrow> session" where
  "cleanup s = s\<lparr>audioEls := [], peerTrackState := Map.empty, activeWhisperTarget := None\<rparr>"

definition leaveRoom :: "session \<Rightarrow> session" where
  "leaveRoom s =
     (let s1 = destroyAudio (cleanup s);
          s2 = (case admitTimeout s1 of
                  None \<Rightarrow> s1
                | Some h \<Rightarrow> (clearTimeout h s1)\<lparr>admitTimeout := None\<rparr>);
          s3 = s2\<lparr>pendingPeerInfo := []\<rparr>;
          s4 = s3\<lparr>room := False, sendKnockMsg := False\<rparr>
      in s4\<lparr>peers := [], isTalking := False, knockEnabled := False, admitted := True,
             pendingKnocks := [], creatorId := None\<rparr>)"

subsection \<open>Timer callbacks and the event loop\<close>

text \<open>The callback armed by \<open>joinRoom\<close>:
  \<open>if (!state.admitted) { state.creatorId = selfId; admitSelf(); }\<close>; the callback armed
  by a rejection: \<open>leaveRoom(); createRoom();\<close>.\<close>

definition admitCallback :: "session \<Rightarrow> session" where
  "admitCallback s = (if \<not> admitted s then admitSelf (s\<lparr>creatorId := Some (selfId s)\<rparr>) else s)"

definition rejectCallback :: "nat list \<Rightarrow> bool \<Rightarrow> session \<Rightarrow> session" where
  "rejectCallback draws mic s = createRoom draws mic (leaveRoom s)"

text \<open>A live timer fires once; a cleared timer never does.\<close>

definition fireTimer :: "nat \<Rightarrow> nat list \<Rightarrow> bool \<Rightarrow> session \<Rightarrow> session" where
  "fireTimer h draws mic s =
     (case find (\<lambda>t. fst t = h) (timers s) of
        None \<Rightarrow> s
      | Some (_, _, cb) \<Rightarrow>
          (let s1 = clearTimeout h s
           in case cb of
                AdmitCallback \<Rightarrow> admitCallback s1
              | RejectCallback \<Rightarrow> rejectCallback draws mic s1))"

text \<open>A firing up to the \<open>await\<close> of the \<open>createRoom\<close> its callback calls.\<close>

definition fireTimer_begin :: "nat \<Rightarrow> session \<Rightarrow> session" where
  "fireTimer_begin h s =
     (case find (\<lambda>t. fst t = h) (timers s) of
        None \<Rightarrow> s
      | Some (_, _, cb) \<Rightarrow>
          (let s1 = clearTimeout h s
           in case cb of
                AdmitCallback \<Rightarrow> admitCallback s1
              | RejectCallback \<Rightarrow> createRoom_begin (leaveRoom s1)))"

text \<open>
  One turn of the event loop. The transport calls the handlers that \<open>setupRoom\<close>
  registered only while the room is joined. \<open>Boot\<close> is \<open>boot\<close> of app.js after its
  \<open>initUI\<close>, \<open>HashChange\<close> is \<open>handleHashChange\<close> of app.js
  (\<open>leaveRoom(); joinRoom(newRoom)\<close>) and \<open>NewRoom\<close> the leave button of ui.js
  (\<open>leaveRoom(); createRoom()\<close>), each with its \<open>createRoom\<close> or \<open>joinRoom\<close> run to
  the end before the next event, as in \<open>TimerFires\<close>. \<open>BootBegins\<close>,
  \<open>HashChangeBegins\<close>, \<open>NewRoomBegins\<close> and \<open>TimerFiresBegins\<close> are the same calls up
  to the \<open>await initAudio()\<close>; \<open>JoinResumes\<close>
  and \<open>CreateResumes\<close> continue a call that began earlier, with the code it was called
  with or the draws of its code. The random draws and the microphone's answer come with
  the event.
\<close>

datatype event =
    PeerJoin string
  | PeerLeave string
  | PeerStream string
  | GotUsername string string
  | GotTalking bool string
  | GotWhisper bool string
  | GotRename string string
  | GotIdle bool string
  | GotKnock knock_msg string
  | WhisperStart string
  | WhisperStop
  | ToggleKnockMode
  | ResolveKnock string bool
  | Boot "string option" "nat list" bool
  | HashChange string bool
  | NewRoom "nat list" bool
  | KnockLeave
  | TimerFires nat "nat list" bool
  | BootBegins "string option"
  | HashChangeBegins string
  | NewRoomBegins
  | TimerFiresBegins nat
  | JoinResumes string bool
  | CreateResumes "nat list" bool

definition step :: "event \<Rightarrow> session \<Rightarrow> session" where
  "step e s =
     (case e of
        PeerJoin pid \<Rightarrow> if room s then onPeerJoin pid s else s
      | PeerLeave pid \<Rightarrow> if room s then onPeerLeave pid s else s
      | PeerStream pid \<Rightarrow> if room s then onPeerStream pid s else s
      | GotUsername n pid \<Rightarrow> if room s then getUsername n pid s else s
      | GotTalking b pid \<Rightarrow> if room s then getTalking b pid s else s
      | GotWhisper b pid \<Rightarrow> if room s then getWhisper b pid s else s
      | GotRename n pid \<Rightarrow> if room s then getRename n pid s else s
      | GotIdle b pid \<Rightarrow> if room s then getIdle b pid s else s
      | GotKnock msg pid \<Rightarrow> if room s then getKnock msg pid s else s
      | WhisperStart pid \<Rightarrow> whisperStart pid s
      | WhisperStop \<Rightarrow> whisperStop s
      | ToggleKnockMode \<Rightarrow> toggleKnockMode s
      | ResolveKnock pid approved \<Rightarrow> resolveKnock pid approved s
      | Boot code draws mic \<Rightarrow>
          (case code of None \<Rightarrow> createRoom draws mic s | Some c \<Rightarrow> joinRoom c mic s)
      | HashChange code mic \<Rightarrow>
          (if code \<noteq> roomCode s then joinRoom code mic (leaveRoom s) else s)
      | NewRoom draws mic \<Rightarrow> createRoom draws mic (leaveRoom s)
      | KnockLeave \<Rightarrow> leaveRoom s
      | TimerFires h draws mic \<Rightarrow> fireTimer h draws mic s
      | BootBegins code \<Rightarrow>
          (case code of None \<Rightarrow> createRoom_begin s | Some c \<Rightarrow> joinRoom_begin c s)
      | HashChangeBegins code \<Rightarrow>
          (if code \<noteq> roomCode s then joinRoom_begin code (leaveRoom s) else s)
      | NewRoomBegins \<Rightarrow> createRoom_begin (leaveRoom s)
      | TimerFiresBegins h \<Rightarrow> fireTimer_begin h s
      | JoinResumes code mic \<Rightarrow> joinRoom_resume code mic s
      | CreateResumes draws mic \<Rightarrow> createRoom_resume (genCode draws) mic s)"

definition run :: "event list \<Rightarrow> session \<Rightarrow> session" where
  "run es s = foldl (\<lambda>st e. step e st) s es"

subsection \<open>Auxiliary functions of the store's proofs\<close>

text \<open>The changes a body buffers when run from a target \<open>t\<close> inside a batch, the target
  it leaves, and the fields of a list of changes in the order of their first change.\<close>

fun changes_of :: "('k \<Rightarrow> 'v) \<Rightarrow> ('k \<times> 'v) list \<Rightarrow> ('k, 'v) change list" where
  "changes_of t [] = []"
| "changes_of t ((prop, val) # fn) =
     (if t prop = val then changes_of t fn
      else (prop, val, t prop) # changes_of (t(prop := val)) fn)"

fun final_target :: "('k \<Rightarrow> 'v) \<Rightarrow> ('k \<times> 'v) list \<Rightarrow> ('k \<Rightarrow> 'v)" where
  "final_target t [] = t"
| "final_target t ((prop, val) # fn) = final_target (t(prop := val)) fn"

definition touched :: "('k, 'v) change list \<Rightarrow> 'k list" where
  "touched cs = rev (remdups (rev (map fst cs)))"

text \<open>The fields a body changes, in the order of their first change: an assignment of
  the value the field holds at that moment is suppressed by the \<open>set\<close> trap and is no
  change.\<close>

definition first_changed :: "('k \<Rightarrow> 'v) \<Rightarrow> ('k \<times> 'v) list \<Rightarrow> 'k list" where
  "first_changed t fn = touched (changes_of t fn)"

subsection \<open>Auxiliary notions of the room module's proofs\<close>

text \<open>\<open>promote K ps pid\<close> is the roster \<open>moveKnockToPeers\<close> leaves, from the roster
  \<open>ps\<close> and the pending knocks \<open>K\<close>.\<close>

definition promote :: "knock list \<Rightarrow> peer list \<Rightarrow> string \<Rightarrow> peer list" where
  "promote K ps pid =
     (if find (\<lambda>p. peerId p = pid) ps \<noteq> None then ps
      else ps @ [makePeer pid (map_option k_username (find (\<lambda>k. k_peerId k = pid) K))])"

text \<open>The transport reports other clients only: a peer-join never carries the client's
  own identifier.\<close>

definition remote_event :: "string \<Rightarrow> event \<Rightarrow> bool" where
  "remote_event sid e = (case e of PeerJoin pid \<Rightarrow> pid \<noteq> sid | _ \<Rightarrow> True)"

text \<open>The roster holds an identifier once; \<open>pendingPeerInfo\<close> is a map (its keys are
  distinct) that never holds the client itself.\<close>

definition roster_inv :: "session \<Rightarrow> bool" where
  "roster_inv s =
     (distinct (map peerId (peers s))
      \<and> selfId s \<notin> fst ` set (pendingPeerInfo s)
      \<and> distinct (map fst (pendingPeerInfo s)))"

subsection \<open>Example sessions\<close>

text \<open>A client \<open>me\<close> that created a room, was joined by \<open>B\<close>, turned knocking on and
  has \<open>C\<close> knocking; and a client \<open>me\<close> that joined the room \<open>AAAA\<close> and knocks.\<close>

definition host_demo :: session where
  "host_demo =
     run [Boot None [0, 0, 0, 0] True, PeerJoin ''B'', ToggleKnockMode, PeerJoin ''C'']
       (initial ''me'' False ''Ann'')"

definition knocker_demo :: session where
  "knocker_demo = run [Boot (Some ''aaaa'') [] True, PeerJoin ''A''] (initial ''me'' False ''Ann'')"

subsection \<open>Auxiliary notions of the timer's proofs\<close>

text \<open>An event that neither admits the client \<open>sid\<close> nor makes it leave or join a room,
  and is not a timer firing.\<close>

fun quiet :: "string \<Rightarrow> event \<Rightarrow> bool" where
  "quiet sid (GotKnock Admitted sender) = False"
| "quiet sid (GotKnock (Reply t approved) sender) = (\<not> (t = sid \<and> approved))"
| "quiet sid (Boot code draws mic) = False"
| "quiet sid (HashChange code mic) = False"
| "quiet sid (NewRoom draws mic) = False"
| "quiet sid KnockLeave = False"
| "quiet sid (TimerFires h draws mic) = False"
| "quiet sid (BootBegins code) = False"
| "quiet sid (HashChangeBegins code) = False"
| "quiet sid NewRoomBegins = False"
| "quiet sid (TimerFiresBegins h) = False"
| "quiet sid (JoinResumes code mic) = False"
| "quiet sid (CreateResumes draws mic) = False"
| "quiet sid e = True"

text \<open>The fields the timer's proofs follow through the operations that do not touch
  them.\<close>

definition core ::
  "session \<Rightarrow> bool \<times> string \<times> string \<times> nat option \<times> (nat \<times> nat \<times> timer_cb) list \<times> nat" where
  "core s = (admitted s, roomCode s, selfId s, admitTimeout s, timers s, nextTimer s)"

text \<open>A client knocking at the room \<open>code\<close> whose admission timer \<open>h\<close> is live.\<close>

definition knocking :: "string \<Rightarrow> string \<Rightarrow> nat \<Rightarrow> session \<Rightarrow> bool" where
  "knocking sid code h s =
     (\<not> admitted s \<and> roomCode s = code \<and> selfId s = sid \<and> admitTimeout s = Some h
      \<and> find (\<lambda>t. fst t = h) (timers s) = Some (h, 3000, AdmitCallback))"

section \<open>Properties of the store\<close>

lemma run_body_Nil: "run_body [] st = st"
  by (simp add: run_body_def)

lemma run_body_Cons: "run_body ((p, v) # fn) st = run_body fn (set_prop p v st)"
  by (simp add: run_body_def)

lemma run_body_batching:
  "batching st \<Longrightarrow>
   run_body fn st = st\<lparr>target := final_target (target st) fn,
                        pendingChanges := pendingChanges st @ changes_of (target st) fn\<rparr>"
proof (induction fn arbitrary: st)
  case Nil
  then show ?case by (simp add: run_body_Nil)
next
  case (Cons a fn)
  obtain p v where a: "a = (p, v)" by (cases a)
  show ?case
  proof (cases "target st p = v")
    case True
    then have "set_prop p v st = st" by (simp add: set_prop_def)
    moreover have "(target st)(p := v) = target st" using True by auto
    ultimately show ?thesis using Cons a True by (simp add: run_body_Cons)
  next
    case False
    let ?st' = "set_prop p v st"
    have b: "batching ?st'" using Cons.prems False by (simp add: set_prop_def notify_def)
    have t: "target ?st' = (target st)(p := v)"
      using Cons.prems False by (simp add: set_prop_def notify_def)
    have pc: "pendingChanges ?st' = pendingChanges st @ [(p, v, target st p)]"
      using Cons.prems False by (simp add: set_prop_def notify_def)
    have o: "?st' = st\<lparr>target := (target st)(p := v), pendingChanges := pendingChanges st @ [(p, v, target st p)]\<rparr>"
      using Cons.prems False by (simp add: set_prop_def notify_def)
    have "run_body fn ?st' = ?st'\<lparr>target := final_target (target ?st') fn,
        pendingChanges := pendingChanges ?st' @ changes_of (target ?st') fn\<rparr>"
      by (rule Cons.IH[OF b])
    then have "run_body fn ?st' = st\<lparr>target := final_target ((target st)(p := v)) fn,
        pendingChanges := pendingChanges st @ (p, v, target st p) # changes_of ((target st)(p := v)) fn\<rparr>"
      unfolding t pc unfolding o by simp
    then show ?thesis
      unfolding a run_body_Cons using False by simp
  qed
qed

lemma final_target_snoc: "final_target t (fn @ [(p, v)]) = (final_target t fn)(p := v)"
  by (induction fn arbitrary: t) auto

lemma changes_of_snoc:
  "changes_of t (fn @ [(p, v)]) =
     changes_of t fn @ (if final_target t fn p = v then [] else [(p, v, final_target t fn p)])"
  by (induction fn arbitrary: t) auto

lemma final_target_untouched:
  "p \<notin> fst ` set (changes_of t fn) \<Longrightarrow> final_target t fn p = t p"
proof (induction fn arbitrary: t)
  case Nil
  then show ?case by simp
next
  case (Cons a fn)
  obtain q v where a: "a = (q, v)" by (cases a)
  show ?case
  proof (cases "t q = v")
    case True
    then have "t(q := v) = t" by auto
    with Cons a True show ?thesis by simp
  next
    case False
    with Cons.prems a have pq: "p \<noteq> q" and nin: "p \<notin> fst ` set (changes_of (t(q := v)) fn)" by auto
    have "final_target (t(q := v)) fn p = (t(q := v)) p" using nin by (rule Cons.IH)
    then show ?thesis unfolding a using pq by simp
  qed
qed

lemma final_target_last_assigned:
  "final_target t fn p = (case last_assigned fn p of None \<Rightarrow> t p | Some v \<Rightarrow> v)"
proof (induction fn rule: rev_induct)
  case Nil
  then show ?case by (simp add: last_assigned_def)
next
  case (snoc a fn)
  obtain q v where a: "a = (q, v)" by (cases a)
  with snoc show ?case by (simp add: final_target_snoc last_assigned_def)
qed

lemma touched_snoc:
  "touched (cs @ [c]) = (if fst c \<in> fst ` set cs then touched cs else touched cs @ [fst c])"
  by (simp add: touched_def)

lemma set_touched: "set (touched cs) = fst ` set cs"
  by (simp add: touched_def)

lemma distinct_touched: "distinct (touched cs)"
  by (simp add: touched_def)

lemma coalesce_snoc: "coalesce (cs @ [c]) = coalesce_step (coalesce cs) c"
  by (simp add: coalesce_def)

lemma coalesce_changes_of:
  "coalesce (changes_of t fn) =
     map (\<lambda>q. (q, final_target t fn q, t q)) (touched (changes_of t fn))"
proof (induction fn rule: rev_induct)
  case Nil
  then show ?case by (simp add: coalesce_def touched_def)
next
  case (snoc a fn)
  obtain p v where a: "a = (p, v)" by (cases a)
  let ?cs = "changes_of t fn"
  let ?tf = "final_target t fn"
  show ?case
  proof (cases "?tf p = v")
    case True
    then have "?tf(p := v) = ?tf" by auto
    with snoc a True show ?thesis by (simp add: changes_of_snoc final_target_snoc)
  next
    case False
    show ?thesis
    proof (cases "p \<in> fst ` set ?cs")
      case True
      then have has: "map_has (coalesce ?cs) p"
        by (simp add: map_has_def snoc.IH set_touched image_image)
      show ?thesis
        using False True has a
        by (simp add: changes_of_snoc final_target_snoc coalesce_snoc coalesce_step_def
            touched_snoc snoc.IH)
    next
      case nin: False
      then have has: "\<not> map_has (coalesce ?cs) p"
        by (simp add: map_has_def snoc.IH set_touched image_image)
      have old: "?tf p = t p" using nin by (rule final_target_untouched)
      have "p \<notin> set (touched ?cs)" using nin by (simp add: set_touched)
      then show ?thesis
        using False nin has a old
        by (auto simp add: changes_of_snoc final_target_snoc coalesce_snoc coalesce_step_def
            touched_snoc snoc.IH)
    qed
  qed
qed

lemma batch_calls_eq:
  assumes "pendingChanges st = []"
  shows "batch_calls fn st =
     concat (map (call_subscribers (subscribers st))
       (map (\<lambda>q. (q, final_target (target st) fn q, target st q))
          (touched (changes_of (target st) fn))))"
proof -
  have "batching (st\<lparr>batching := True\<rparr>)" by simp
  from run_body_batching[OF this, of fn]
  show ?thesis using assms
    by (simp add: batch_calls_def batch_def Let_def coalesce_changes_of)
qed


lemma assigned_iff: "(\<exists>v. last_assigned fn p = Some v) \<longleftrightarrow> p \<in> fst ` set fn"
proof -
  have "last_assigned fn p = None \<longleftrightarrow> p \<notin> fst ` set fn"
    by (simp add: last_assigned_def map_of_eq_None_iff)
  then show ?thesis by (cases "last_assigned fn p") auto
qed

lemma first_assigned_snoc:
  "first_assigned (fn @ [(p, v)]) =
     (if p \<in> fst ` set fn then first_assigned fn else first_assigned fn @ [p])"
  by (simp add: first_assigned_def)

lemma touched_first_assigned:
  "\<forall>(p, v)\<in>set fn. v \<noteq> t p \<Longrightarrow> touched (changes_of t fn) = first_assigned fn"
proof (induction fn rule: rev_induct)
  case Nil
  then show ?case by (simp add: touched_def first_assigned_def)
next
  case (snoc a fn)
  obtain p v where a: "a = (p, v)" by (cases a)
  from snoc.prems a have pv: "v \<noteq> t p" and H: "\<forall>(p, v)\<in>set fn. v \<noteq> t p" by auto
  have IH: "touched (changes_of t fn) = first_assigned fn" using H by (rule snoc.IH)
  have dom: "fst ` set (changes_of t fn) = fst ` set fn"
    using IH set_touched[of "changes_of t fn"] by (simp add: first_assigned_def)
  show ?case
  proof (cases "final_target t fn p = v")
    case True
    with pv have "\<exists>w. last_assigned fn p = Some w"
      by (auto simp: final_target_last_assigned split: option.splits)
    then have "p \<in> fst ` set fn" by (simp only: assigned_iff)
    then show ?thesis using True a IH by (simp add: changes_of_snoc first_assigned_snoc)
  next
    case False
    then show ?thesis using a IH dom
      by (simp add: changes_of_snoc first_assigned_snoc touched_snoc)
  qed
qed

lemma unchanged_assignments:
  "X \<notin> fst ` set (changes_of t fn) \<Longrightarrow> (X, v) \<in> set fn \<Longrightarrow> v = t X"
proof (induction fn arbitrary: t)
  case Nil
  then show ?case by simp
next
  case (Cons a fn)
  obtain q w where a: "a = (q, w)" by (cases a)
  show ?case
  proof (cases "t q = w")
    case True
    with Cons.prems a have "X \<notin> fst ` set (changes_of t fn)" by simp
    with Cons.IH[of t] Cons.prems a True show ?thesis by auto
  next
    case False
    with Cons.prems a have pq: "X \<noteq> q" and nin: "X \<notin> fst ` set (changes_of (t(q := w)) fn)"
      by auto
    from Cons.prems a pq have "(X, v) \<in> set fn" by auto
    with nin have "v = (t(q := w)) X" by (rule Cons.IH)
    then show ?thesis using pq by simp
  qed
qed

lemma filter_calls:
  "distinct qs \<Longrightarrow>
   filter (\<lambda>c. fst (snd c) = X) (concat (map (\<lambda>q. call_subscribers subs (q, f q, g q)) qs)) =
     (if X \<in> set qs then call_subscribers subs (X, f X, g X) else [])"
proof (induction qs)
  case Nil
  then show ?case by simp
next
  case (Cons q qs)
  have one: "filter (\<lambda>c. fst (snd c) = X) (call_subscribers subs (q, f q, g q)) =
      (if q = X then call_subscribers subs (q, f q, g q) else [])"
    by (simp add: call_subscribers_def filter_map comp_def)
  from Cons show ?case by (auto simp: one)
qed

lemma changed_assignment:
  "p \<in> fst ` set (changes_of t fn) \<Longrightarrow> \<exists>v. (p, v) \<in> set fn \<and> v \<noteq> t p"
proof (induction fn arbitrary: t)
  case Nil
  then show ?case by simp
next
  case (Cons a fn)
  obtain q w where a: "a = (q, w)" by (cases a)
  show ?case
  proof (cases "t q = w")
    case True
    with Cons.prems a have "p \<in> fst ` set (changes_of t fn)" by simp
    then have "\<exists>v. (p, v) \<in> set fn \<and> v \<noteq> t p" by (rule Cons.IH)
    then show ?thesis by auto
  next
    case False
    show ?thesis
    proof (cases "p = q")
      case True
      with False a show ?thesis by auto
    next
      case pq: False
      with Cons.prems a False have "p \<in> fst ` set (changes_of (t(q := w)) fn)" by auto
      then have "\<exists>v. (p, v) \<in> set fn \<and> v \<noteq> (t(q := w)) p" by (rule Cons.IH)
      with pq show ?thesis by auto
    qed
  qed
qed

lemma set_first_changed:
  "set (first_changed t fn) = {p. \<exists>v. (p, v) \<in> set fn \<and> v \<noteq> t p}"
proof -
  have "p \<in> fst ` set (changes_of t fn) \<longleftrightarrow> (\<exists>v. (p, v) \<in> set fn \<and> v \<noteq> t p)" for p
    using changed_assignment[of p t fn] unchanged_assignments[of p t fn] by blast
  then show ?thesis by (auto simp: first_changed_def set_touched)
qed

text \<open>
  Claim C2, as the code has it. A batch calls every subscriber exactly once for each field
  its body changes, with the last value assigned to the field as the new value and the
  value the field had before the batch as the old value; so a field assigned \<open>value1\<close>
  and then \<open>value2\<close>, both other than its value before the batch, is reported once, with
  \<open>value2\<close> and the value from before the batch, never with the intermediate
  \<open>value1\<close>. The calls for distinct fields come in the order in which the fields were
  first changed: an assignment of the value a field already holds is no change. That is the
  order of first assignment when every assignment of the body differs from the value its
  field had before the batch.
\<close>

theorem batch_coalesces:
  assumes "pendingChanges st = []"
  shows "batch_calls fn st =
      concat (map (\<lambda>p. call_subscribers (subscribers st)
                          (p, the (last_assigned fn p), target st p))
                (first_changed (target st) fn))
    \<and> distinct (first_changed (target st) fn)
    \<and> set (first_changed (target st) fn) = {p. \<exists>v. (p, v) \<in> set fn \<and> v \<noteq> target st p}
    \<and> ((X, v1) \<in> set fn \<and> v1 \<noteq> target st X \<longrightarrow>
          filter (\<lambda>c. fst (snd c) = X) (batch_calls fn st) =
            call_subscribers (subscribers st) (X, the (last_assigned fn X), target st X))
    \<and> ((\<forall>(p, v)\<in>set fn. v \<noteq> target st p) \<longrightarrow>
          first_changed (target st) fn = first_assigned fn)"
proof -
  let ?t = "target st"
  have tf: "final_target ?t fn p = the (last_assigned fn p)"
    if "p \<in> set (first_changed ?t fn)" for p
  proof -
    from that have "p \<in> fst ` set fn" by (force simp: set_first_changed)
    then have "\<exists>w. last_assigned fn p = Some w" by (simp only: assigned_iff)
    then show ?thesis by (auto simp: final_target_last_assigned)
  qed
  have "batch_calls fn st =
     concat (map (call_subscribers (subscribers st))
       (map (\<lambda>q. (q, final_target ?t fn q, ?t q)) (first_changed ?t fn)))"
    using batch_calls_eq[OF assms, of fn] by (simp add: first_changed_def)
  also have "\<dots> = concat (map (\<lambda>p. call_subscribers (subscribers st)
                          (p, the (last_assigned fn p), ?t p)) (first_changed ?t fn))"
    using tf by (simp add: comp_def cong: map_cong)
  finally have 1: "batch_calls fn st =
      concat (map (\<lambda>p. call_subscribers (subscribers st)
                          (p, the (last_assigned fn p), ?t p)) (first_changed ?t fn))" .
  have 2: "distinct (first_changed ?t fn)" by (simp add: first_changed_def distinct_touched)
  have 3: "set (first_changed ?t fn) = {p. \<exists>v. (p, v) \<in> set fn \<and> v \<noteq> ?t p}"
    by (rule set_first_changed)
  have 4: "filter (\<lambda>c. fst (snd c) = X) (batch_calls fn st) =
            call_subscribers (subscribers st) (X, the (last_assigned fn X), ?t X)"
    if "(X, v1) \<in> set fn \<and> v1 \<noteq> ?t X"
  proof -
    from that have "X \<in> set (first_changed ?t fn)" by (auto simp: set_first_changed)
    then show ?thesis
      using filter_calls[OF 2, of X "subscribers st" "\<lambda>p. the (last_assigned fn p)" ?t]
      by (simp add: 1)
  qed
  have 5: "first_changed ?t fn = first_assigned fn" if "\<forall>(p, v)\<in>set fn. v \<noteq> ?t p"
    using touched_first_assigned[OF that] by (simp add: first_changed_def)
  from 1 2 3 4 5 show ?thesis by blast
qed

theorem batch_coalesces_witness:
  "batch_calls [(''x'', 1::int), (''y'', 5), (''x'', 2)]
     \<lparr>target = (\<lambda>_. 0), subscribers = [''ui''], batching = False,
      pendingChanges = [], delivered = []\<rparr>
   = [(''ui'', ''x'', 2, 0), (''ui'', ''y'', 5, 0)]"
proof -
  have "pendingChanges \<lparr>target = (\<lambda>_. 0::int), subscribers = [''ui''], batching = False,
      pendingChanges = [], delivered = []\<rparr> = ([] :: (string, int) change list)" by simp
  from batch_coalesces[OF this, of "[(''x'', 1::int), (''y'', 5), (''x'', 2)]"]
  have "batch_calls [(''x'', 1::int), (''y'', 5), (''x'', 2)]
     \<lparr>target = (\<lambda>_. 0), subscribers = [''ui''], batching = False,
      pendingChanges = [], delivered = []\<rparr>
    = concat (map (\<lambda>p. call_subscribers [''ui'']
                          (p, the (last_assigned [(''x'', 1::int), (''y'', 5), (''x'', 2)] p), 0))
                (first_changed (\<lambda>_. 0) [(''x'', 1::int), (''y'', 5), (''x'', 2)]))"
    by simp
  then show ?thesis
    by (simp add: first_changed_def touched_def last_assigned_def call_subscribers_def)
qed

text \<open>
  The claim C2 as stated fails in its order clause: a body that assigns \<open>y\<close> the value it
  already holds, then \<open>x\<close>, then \<open>y\<close> and \<open>x\<close> again, assigns \<open>y\<close> first, and the
  batch reports \<open>x\<close> before \<open>y\<close>.
\<close>

theorem batch_order_is_first_change:
  "batch_calls [(''y'', 0::int), (''x'', 1), (''y'', 5), (''x'', 2)]
     \<lparr>target = (\<lambda>_. 0), subscribers = [''ui''], batching = False,
      pendingChanges = [], delivered = []\<rparr>
   = [(''ui'', ''x'', 2, 0), (''ui'', ''y'', 5, 0)]
   \<and> first_assigned [(''y'', 0::int), (''x'', 1), (''y'', 5), (''x'', 2)] = [''y'', ''x'']"
  by (simp add: batch_calls_def batch_def run_body_def set_prop_def notify_def coalesce_def
      coalesce_step_def map_has_def call_subscribers_def first_assigned_def Let_def)

text \<open>
  Claim C9. When a body assigns a field a value other than the one it had before the batch
  and its last assignment to the field restores that value, the batch still calls every
  subscriber exactly once for the field, with the new value equal to the old value: the
  \<open>set\<close> trap suppresses an unchanged assignment, the batch does not suppress an
  unchanged net effect.
\<close>

theorem batch_revert_still_notifies:
  assumes "pendingChanges st = []"
    and "(X, v1) \<in> set fn" and "v1 \<noteq> target st X"
    and "last_assigned fn X = Some (target st X)"
  shows "filter (\<lambda>c. fst (snd c) = X) (batch_calls fn st) =
           call_subscribers (subscribers st) (X, target st X, target st X)"
proof -
  let ?t = "target st"
  have X: "X \<in> set (touched (changes_of ?t fn))"
    using unchanged_assignments[of X ?t fn v1] assms(2,3) by (auto simp: set_touched)
  have tf: "final_target ?t fn X = ?t X"
    using assms(4) by (simp add: final_target_last_assigned)
  have "batch_calls fn st =
     concat (map (\<lambda>q. call_subscribers (subscribers st) (q, final_target ?t fn q, ?t q))
          (touched (changes_of ?t fn)))"
    using batch_calls_eq[OF assms(1), of fn] by (simp add: comp_def)
  then show ?thesis
    using filter_calls[OF distinct_touched, of X "subscribers st" "final_target ?t fn" ?t "changes_of ?t fn"] X tf
    by simp
qed

theorem batch_revert_still_notifies_witness:
  "filter (\<lambda>c. fst (snd c) = ''x'')
     (batch_calls [(''x'', 1::int), (''y'', 5), (''x'', 0)]
        \<lparr>target = (\<lambda>_. 0), subscribers = [''ui''], batching = False,
         pendingChanges = [], delivered = []\<rparr>)
   = [(''ui'', ''x'', 0, 0)]"
  using batch_revert_still_notifies [of "\<lparr>target = (\<lambda>_. 0::int), subscribers = [''ui''], batching = False,
      pendingChanges = [], delivered = []\<rparr>" "''x''" 1 "[(''x'', 1::int), (''y'', 5), (''x'', 0)]"]
  by (simp add: last_assigned_def call_subscribers_def)

text \<open>
  The older generation of the store differs exactly here: it reports the intermediate
  value as the old value.
\<close>

lemma batch_old_reports_intermediate:
  "delivered (batch_old [(''x'', 1::int), (''x'', 2)]
     \<lparr>target = (\<lambda>_. 0), subscribers = [''ui''], batching = False,
      pendingChanges = [], delivered = []\<rparr>) = [(''ui'', ''x'', 2, 1)]"
  by (simp add: batch_old_def run_body_def set_prop_def notify_def coalesce_step_old_def
      map_has_def call_subscribers_def Let_def)

section \<open>Properties of the room module\<close>

subsection \<open>Basic facts\<close>

lemma createRoom_unfold:
  "createRoom draws mic s =
     (let code = genCode draws;
          s1 = s\<lparr>admitted := True, creatorId := None\<rparr>;
          s2 = initAudio_or_fallback mic s1;
          s3 = setupRoom code s2
      in s3\<lparr>creatorId := Some (selfId s3)\<rparr>)"
  by (simp add: createRoom_def createRoom_begin_def createRoom_resume_def Let_def)

lemma joinRoom_unfold:
  "joinRoom code0 mic s =
     (let code = trim (toUpperCase code0)
      in if code = [] then s
         else
           let s1 = s\<lparr>admitted := False\<rparr>;
               s2 = initAudio_or_fallback mic s1;
               s3 = setupRoom code s2;
               (h, s4) = setTimeout AdmitCallback 3000 s3
           in s4\<lparr>admitTimeout := Some h\<rparr>)"
  by (simp add: joinRoom_def joinRoom_begin_def joinRoom_resume_def Let_def)

lemma peerId_makePeer: "peerId (makePeer pid u) = pid"
  by (simp add: makePeer_def)

lemma find_None_peerId: "(find (\<lambda>p. peerId p = t) ps = None) = (t \<notin> peerId ` set ps)"
  by (auto simp: find_None_iff)

lemma foldl_inv:
  assumes "\<And>x st. P st \<Longrightarrow> P (f st x)" and "P s"
  shows "P (foldl f s xs)"
  using assms(2) by (induction xs arbitrary: s) (auto intro: assms(1))

lemma admitSelf_admitted: "admitted s \<Longrightarrow> admitSelf s = s"
  by (simp add: admitSelf_def)

lemma removeKnock_idem: "removeKnock t (removeKnock t s) = removeKnock t s"
  by (simp add: removeKnock_def)

lemma peers_removeKnock: "peers (removeKnock t s) = peers s"
  by (simp add: removeKnock_def)

lemma moveKnockToPeers_present:
  "find (\<lambda>p. peerId p = t) (peers s) \<noteq> None \<Longrightarrow> moveKnockToPeers t s = s"
  by (simp add: moveKnockToPeers_def)

lemma find_append_hit: "P x \<Longrightarrow> find P (xs @ [x]) \<noteq> None"
  by (induction xs) auto

lemma moveKnockToPeers_then_present:
  "find (\<lambda>p. peerId p = t) (peers (moveKnockToPeers t s)) \<noteq> None"
proof (cases "find (\<lambda>p. peerId p = t) (peers s) = None")
  case True
  then show ?thesis
    by (simp add: moveKnockToPeers_def Let_def find_append_hit peerId_makePeer)
next
  case False
  then show ?thesis by (simp add: moveKnockToPeers_def)
qed

lemma moveKnockToPeers_promote:
  "moveKnockToPeers pid st = st\<lparr>peers := promote (pendingKnocks st) (peers st) pid\<rparr>"
  by (simp add: moveKnockToPeers_def promote_def Let_def)

lemma sendKnock_fields:
  "peers (sendKnock m d s) = peers s" "pendingKnocks (sendKnock m d s) = pendingKnocks s"
  "knockEnabled (sendKnock m d s) = knockEnabled s"
  by (simp_all add: sendKnock_def)

lemma fold_promote_knock:
  "foldl promote_knock s ks =
     s\<lparr>peers := foldl (promote (pendingKnocks s)) (peers s) (map k_peerId ks)\<rparr>"
proof (induction ks rule: rev_induct)
  case Nil
  then show ?case by simp
next
  case (snoc k ks)
  then show ?case by (simp add: promote_knock_def moveKnockToPeers_promote)
qed

lemma fold_reply_and_promote:
  "foldl reply_and_promote s ks =
     s\<lparr>peers := foldl (promote (pendingKnocks s)) (peers s) (map k_peerId ks),
       effects := effects s @
         (if sendKnockMsg s then map (\<lambda>k. SendKnock (Reply (k_peerId k) True) None) ks else [])\<rparr>"
proof (induction ks rule: rev_induct)
  case Nil
  then show ?case by simp
next
  case (snoc k ks)
  then show ?case by (simp add: reply_and_promote_def moveKnockToPeers_promote sendKnock_def)
qed

lemma promote_cases:
  assumes "pid \<in> k_peerId ` set K"
  shows "promote K ps pid = ps \<and> pid \<in> peerId ` set ps
       \<or> (\<exists>k\<in>set K. k_peerId k = pid
             \<and> promote K ps pid = ps @ [makePeer (k_peerId k) (Some (k_username k))])"
proof (cases "find (\<lambda>p. peerId p = pid) ps")
  case None
  from assms obtain k where k: "find (\<lambda>k. k_peerId k = pid) K = Some k"
    by (cases "find (\<lambda>k. k_peerId k = pid) K") (auto simp: find_None_iff)
  then have "k \<in> set K" and "k_peerId k = pid"
    by (auto simp: find_Some_iff)
  then show ?thesis using None k by (auto simp: promote_def)
next
  case (Some p)
  then have "pid \<in> peerId ` set ps" by (auto simp: find_Some_iff)
  then show ?thesis using Some by (simp add: promote_def)
qed

lemma fold_promote:
  assumes "set ids \<subseteq> k_peerId ` set K"
  shows "set ids \<subseteq> peerId ` set (foldl (promote K) ps ids)
       \<and> (\<exists>new. foldl (promote K) ps ids = ps @ new
             \<and> (\<forall>p\<in>set new. \<exists>k\<in>set K. p = makePeer (k_peerId k) (Some (k_username k))))"
  using assms
proof (induction ids rule: rev_induct)
  case Nil
  then show ?case by simp
next
  case (snoc pid ids)
  let ?r = "foldl (promote K) ps ids"
  from snoc obtain new where ih1: "set ids \<subseteq> peerId ` set ?r" and new: "?r = ps @ new"
    and ih2: "\<forall>p\<in>set new. \<exists>k\<in>set K. p = makePeer (k_peerId k) (Some (k_username k))"
    by auto
  from snoc.prems have "pid \<in> k_peerId ` set K" by simp
  from promote_cases[OF this, of ?r]
  show ?case
  proof
    assume "promote K ?r pid = ?r \<and> pid \<in> peerId ` set ?r"
    then show ?thesis using ih1 new ih2 by auto
  next
    assume "\<exists>k\<in>set K. k_peerId k = pid
              \<and> promote K ?r pid = ?r @ [makePeer (k_peerId k) (Some (k_username k))]"
    then obtain k where k: "k \<in> set K" "k_peerId k = pid"
      and pr: "promote K ?r pid = ?r @ [makePeer (k_peerId k) (Some (k_username k))]" by blast
    have 1: "set (ids @ [pid]) \<subseteq> peerId ` set (foldl (promote K) ps (ids @ [pid]))"
      using ih1 k pr by (auto simp: peerId_makePeer)
    have 2: "foldl (promote K) ps (ids @ [pid])
               = ps @ (new @ [makePeer (k_peerId k) (Some (k_username k))])"
      using pr new by simp
    have 3: "\<forall>p\<in>set (new @ [makePeer (k_peerId k) (Some (k_username k))]).
               \<exists>k\<in>set K. p = makePeer (k_peerId k) (Some (k_username k))"
      using ih2 k by auto
    from 1 2 3 show ?thesis by blast
  qed
qed

lemma genCode_4:
  assumes "length draws = 4"
  shows "genCode draws = map (\<lambda>d. chars ! d) draws"
proof -
  have "foldl (\<lambda>code d. code @ [chars ! d]) acc ds = acc @ map (\<lambda>d. chars ! d) ds" for acc ds
    by (induction ds arbitrary: acc) auto
  then show ?thesis using assms by (simp add: genCode_def)
qed

lemma length_chars: "length chars = 32"
  by (simp add: chars_def)

lemma genCode_wf:
  assumes "length draws = 4" and "list_all (\<lambda>d. d < 32) draws"
  shows "length (genCode draws) = 4 \<and> set (genCode draws) \<subseteq> set chars"
proof -
  have "chars ! d \<in> set chars" if "d \<in> set draws" for d
    using that assms(2) by (simp add: list_all_iff length_chars)
  then show ?thesis using assms(1) by (auto simp: genCode_4)
qed

lemma createRoom_fields:
  "roomCode (createRoom draws mic s) = genCode draws
   \<and> admitted (createRoom draws mic s) \<and> creatorId (createRoom draws mic s) = Some (selfId s)
   \<and> view (createRoom draws mic s) = VRoom
   \<and> peers (createRoom draws mic s) = [makePeer (selfId s) (Some (username s))]
   \<and> pendingKnocks (createRoom draws mic s) = pendingKnocks s"
  by (simp add: createRoom_unfold setupRoom_def initAudio_or_fallback_def Let_def)

text \<open>No operation changes the client's own identifier.\<close>

lemma selfId_basic:
  "selfId (emit e s) = selfId s" "selfId (sendKnock m d s) = selfId s"
  "selfId (removeKnock p s) = selfId s" "selfId (updatePeer p u s) = selfId s"
  "selfId (moveKnockToPeers p s) = selfId s" "selfId (clearTimeout h s) = selfId s"
  "selfId (snd (setTimeout cb dl s)) = selfId s" "selfId (setupRoom c s) = selfId s"
  "selfId (initAudio_or_fallback mic s) = selfId s" "selfId (leaveRoom s) = selfId s"
  "selfId (onPeerLeave p s) = selfId s" "selfId (onPeerStream p s) = selfId s"
  "selfId (getUsername n p s) = selfId s"
  by (simp_all add: emit_def sendKnock_def removeKnock_def updatePeer_def moveKnockToPeers_def
      clearTimeout_def setTimeout_def setupRoom_def initAudio_or_fallback_def leaveRoom_def
      cleanup_def destroyAudio_def onPeerLeave_def removeRemoteAudio_def onPeerStream_def
      getUsername_def Let_def split: option.split)

lemma selfId_foldl:
  assumes "\<And>x st. selfId (f st x) = selfId st"
  shows "selfId (foldl f s xs) = selfId s"
  by (induction xs arbitrary: s) (simp_all add: assms)

lemma selfId_bodies:
  "selfId (addStream_unless_self st p) = selfId st" "selfId (promote_knock st k) = selfId st"
  "selfId (reply_and_promote st k) = selfId st" "selfId (route_whisper t st p) = selfId st"
  "selfId (route_normal st p) = selfId st"
  by (simp_all add: addStream_unless_self_def promote_knock_def reply_and_promote_def
      route_whisper_def route_normal_def selfId_basic)

lemma selfId_admitSelf: "selfId (admitSelf s) = selfId s"
  by (simp add: admitSelf_def Let_def selfId_foldl selfId_bodies selfId_basic split: option.split)

lemma selfId_halves:
  "selfId (createRoom_begin s) = selfId s" "selfId (createRoom_resume c mic s) = selfId s"
  "selfId (joinRoom_begin c s) = selfId s" "selfId (joinRoom_resume c mic s) = selfId s"
  by (simp_all add: createRoom_begin_def createRoom_resume_def joinRoom_begin_def
      joinRoom_resume_def Let_def split_beta setTimeout_def selfId_basic)

lemma selfId_createRoom: "selfId (createRoom d mic s) = selfId s"
  by (simp add: createRoom_def selfId_halves)

lemma selfId_joinRoom: "selfId (joinRoom c mic s) = selfId s"
  by (simp add: joinRoom_def selfId_halves)

lemma selfId_whisper:
  "selfId (startWhisper t s) = selfId s" "selfId (stopWhisper t s) = selfId s"
  "selfId (whisperStart t s) = selfId s" "selfId (whisperStop s) = selfId s"
  by (simp_all add: startWhisper_def stopWhisper_def whisperStart_def whisperStop_def Let_def
      selfId_foldl selfId_bodies selfId_basic)

lemma selfId_toggleKnockMode: "selfId (toggleKnockMode s) = selfId s"
  by (simp add: toggleKnockMode_def Let_def selfId_foldl selfId_bodies selfId_basic)

lemma selfId_resolveKnock: "selfId (resolveKnock p a s) = selfId s"
  by (simp add: resolveKnock_def Let_def selfId_basic)

lemma selfId_getKnock: "selfId (getKnock m p s) = selfId s"
  by (cases m)
     (simp_all add: getKnock_def Let_def selfId_foldl selfId_bodies selfId_basic selfId_admitSelf)

lemma selfId_onPeerJoin: "selfId (onPeerJoin p s) = selfId s"
  by (simp add: onPeerJoin_def Let_def selfId_basic)

lemma selfId_fireTimer: "selfId (fireTimer h d mic s) = selfId s"
  by (simp add: fireTimer_def admitCallback_def rejectCallback_def Let_def selfId_basic
      selfId_admitSelf selfId_createRoom split: option.split timer_cb.split)

lemma selfId_fireTimer_begin: "selfId (fireTimer_begin h s) = selfId s"
  by (simp add: fireTimer_begin_def admitCallback_def Let_def selfId_basic selfId_admitSelf
      selfId_halves split: option.split timer_cb.split)

lemma selfId_step: "selfId (step e s) = selfId s"
  by (cases e)
     (simp_all add: step_def selfId_basic selfId_onPeerJoin getTalking_def getWhisper_def
        getRename_def getIdle_def selfId_getKnock selfId_whisper selfId_toggleKnockMode
        selfId_resolveKnock selfId_createRoom selfId_joinRoom selfId_fireTimer selfId_halves
        selfId_fireTimer_begin split: option.split)

lemma run_snoc: "run (es @ [e]) s = step e (run es s)"
  by (simp add: run_def)

lemma selfId_run: "selfId (run es s) = selfId s"
  by (induction es rule: rev_induct) (simp_all add: run_snoc selfId_step, simp add: run_def)
















subsection \<open>Admission\<close>

text \<open>
  Claim C3. For a client that is already admitted, an \<open>admitted\<close> message and an
  approving \<open>reply\<close> addressed to the client itself leave the whole session unchanged;
  and delivering an approving \<open>reply\<close> for a peer twice leaves the session (so the roster
  and the pending knocks) as delivering it once does, whoever sent it.
\<close>

theorem admission_idempotent:
  assumes "admitted s"
  shows "getKnock Admitted sender s = s
       \<and> getKnock (Reply (selfId s) True) sender s = s
       \<and> getKnock (Reply t True) sender' (getKnock (Reply t True) sender s)
           = getKnock (Reply t True) sender s"
proof -
  have a: "getKnock Admitted sender s = s"
    using assms by (simp add: getKnock_def admitSelf_admitted)
  have b: "getKnock (Reply (selfId s) True) sender s = s"
    using assms by (simp add: getKnock_def admitSelf_admitted)
  have c: "getKnock (Reply t True) sender' (getKnock (Reply t True) sender s)
           = getKnock (Reply t True) sender s"
  proof (cases "t = selfId s")
    case True
    then show ?thesis using b assms by (simp add: getKnock_def admitSelf_admitted)
  next
    case False
    let ?s1 = "removeKnock t (moveKnockToPeers t s)"
    have one: "getKnock (Reply t True) sender s = ?s1"
      using assms False by (simp add: getKnock_def)
    have sid: "selfId ?s1 = selfId s" and adm: "admitted ?s1"
      using assms by (simp_all add: removeKnock_def moveKnockToPeers_def Let_def)
    have pres: "find (\<lambda>p. peerId p = t) (peers ?s1) \<noteq> None"
      by (simp only: peers_removeKnock moveKnockToPeers_then_present not_False_eq_True)
    have "getKnock (Reply t True) sender' ?s1 = removeKnock t (moveKnockToPeers t ?s1)"
      using adm False sid by (simp add: getKnock_def)
    also have "\<dots> = removeKnock t ?s1"
      using moveKnockToPeers_present[OF pres] by simp
    also have "\<dots> = ?s1" by (simp only: removeKnock_idem)
    finally show ?thesis by (simp only: one)
  qed
  from a b c show ?thesis by simp
qed

theorem admission_idempotent_witness:
  "admitted host_demo
   \<and> getKnock Admitted ''B'' host_demo = host_demo
   \<and> map peerId (peers (getKnock (Reply ''C'' True) ''B''
        (getKnock (Reply ''C'' True) ''B'' host_demo))) = [''me'', ''B'', ''C'']
   \<and> pendingKnocks (getKnock (Reply ''C'' True) ''B''
        (getKnock (Reply ''C'' True) ''B'' host_demo)) = []"
proof -
  have a: "admitted host_demo" by code_simp
  have once: "map peerId (peers (getKnock (Reply ''C'' True) ''B'' host_demo)) = [''me'', ''B'', ''C'']"
    "pendingKnocks (getKnock (Reply ''C'' True) ''B'' host_demo) = []"
    by code_simp+
  from admission_idempotent[OF a, of "''B''" "''C''" "''B''"] show ?thesis
    using a once by simp
qed

text \<open>
  Claim C4. When the creator turns knocking off with \<open>toggleKnockMode\<close>, and when any
  client receives a \<open>mode\<close> message with \<open>enabled = false\<close>, the pending knocks become
  empty, every peer that was pending is in the roster, and the roster is the old roster
  followed by new entries, each a fresh peer made from a pending knock (its identifier and
  the username the knock carried).
\<close>

theorem mode_off_admits_all:
  assumes "s' = toggleKnockMode s \<and> creatorId s = Some (myPeerId s) \<and> knockEnabled s
         \<or> s' = getKnock (Mode False cid) sender s"
  shows "pendingKnocks s' = [] \<and> \<not> knockEnabled s'
       \<and> (\<forall>k\<in>set (pendingKnocks s). k_peerId k \<in> peerId ` set (peers s'))
       \<and> (\<exists>new. peers s' = peers s @ new
             \<and> (\<forall>p\<in>set new. \<exists>k\<in>set (pendingKnocks s).
                    p = makePeer (k_peerId k) (Some (k_username k))))"
proof -
  let ?K = "pendingKnocks s"
  let ?ps = "foldl (promote ?K) (peers s) (map k_peerId ?K)"
  have fp: "set (map k_peerId ?K) \<subseteq> peerId ` set ?ps
       \<and> (\<exists>new. ?ps = peers s @ new
             \<and> (\<forall>p\<in>set new. \<exists>k\<in>set ?K. p = makePeer (k_peerId k) (Some (k_username k))))"
    by (rule fold_promote) simp
  have fields: "pendingKnocks s' = [] \<and> \<not> knockEnabled s' \<and> peers s' = ?ps"
    using assms
  proof
    assume a: "s' = toggleKnockMode s \<and> creatorId s = Some (myPeerId s) \<and> knockEnabled s"
    show ?thesis
    proof (cases "?K = []")
      case True
      with a show ?thesis by (simp add: toggleKnockMode_def sendKnock_fields Let_def)
    next
      case False
      with a show ?thesis
        by (simp add: toggleKnockMode_def sendKnock_fields Let_def fold_reply_and_promote)
    qed
  next
    assume a: "s' = getKnock (Mode False cid) sender s"
    show ?thesis
    proof (cases "?K = []")
      case True
      with a show ?thesis by (simp add: getKnock_def Let_def)
    next
      case False
      with a show ?thesis by (simp add: getKnock_def Let_def fold_promote_knock)
    qed
  qed
  from fp fields show ?thesis by auto
qed

theorem mode_off_admits_all_witness:
  "map k_peerId (pendingKnocks host_demo) = [''C'']
   \<and> pendingKnocks (toggleKnockMode host_demo) = []
   \<and> map peerId (peers (toggleKnockMode host_demo)) = [''me'', ''B'', ''C'']
   \<and> pendingKnocks (getKnock (Mode False ''B'') ''B'' host_demo) = []
   \<and> map peerId (peers (getKnock (Mode False ''B'') ''B'' host_demo)) = [''me'', ''B'', ''C'']"
proof -
  have c: "creatorId host_demo = Some (myPeerId host_demo)" "knockEnabled host_demo"
    by code_simp+
  have ev: "map k_peerId (pendingKnocks host_demo) = [''C'']"
    "map peerId (peers (toggleKnockMode host_demo)) = [''me'', ''B'', ''C'']"
    "map peerId (peers (getKnock (Mode False ''B'') ''B'' host_demo)) = [''me'', ''B'', ''C'']"
    by code_simp+
  from mode_off_admits_all[of "toggleKnockMode host_demo" host_demo] c
  have 1: "pendingKnocks (toggleKnockMode host_demo) = []" by simp
  from mode_off_admits_all[of "getKnock (Mode False ''B'') ''B'' host_demo" host_demo "''B''" "''B''"]
  have 2: "pendingKnocks (getKnock (Mode False ''B'') ''B'' host_demo) = []" by simp
  from 1 2 ev show ?thesis by simp
qed

text \<open>
  Claim C10. For a peer with no pending knock, \<open>resolveKnock\<close> still sends the \<open>reply\<close>
  (to every peer) whenever the knock channel of a session exists, leaves the pending
  knocks as they are and, when it approves a peer that is not in the roster, appends a
  new roster entry whose username is the peer's identifier.
\<close>

theorem resolveKnock_unguarded:
  assumes "find (\<lambda>k. k_peerId k = pid) (pendingKnocks s) = None"
  shows "(sendKnockMsg s \<longrightarrow>
            effects (resolveKnock pid approved s) = effects s @ [SendKnock (Reply pid approved) None])
       \<and> (find (\<lambda>p. peerId p = pid) (peers s) = None \<longrightarrow>
            peers (resolveKnock pid True s) = peers s @ [makePeer pid None]
            \<and> p_username (makePeer pid None) = pid)
       \<and> pendingKnocks (resolveKnock pid approved s) = pendingKnocks s"
proof -
  have keep: "filter (\<lambda>k. k_peerId k \<noteq> pid) (pendingKnocks s) = pendingKnocks s"
    using assms by (auto simp: find_None_iff filter_id_conv)
  have e: "sendKnockMsg s \<Longrightarrow>
      effects (resolveKnock pid approved s) = effects s @ [SendKnock (Reply pid approved) None]"
    by (simp add: resolveKnock_def sendKnock_def removeKnock_def moveKnockToPeers_def Let_def)
  have p: "find (\<lambda>p. peerId p = pid) (peers s) = None \<Longrightarrow>
      peers (resolveKnock pid True s) = peers s @ [makePeer pid None]"
    using assms
    by (simp add: resolveKnock_def sendKnock_def removeKnock_def moveKnockToPeers_def Let_def)
  have u: "p_username (makePeer pid None) = pid"
    by (simp add: makePeer_def or_else_def)
  have k: "pendingKnocks (resolveKnock pid approved s) = pendingKnocks s"
    using keep
    by (simp add: resolveKnock_def sendKnock_def removeKnock_def moveKnockToPeers_def Let_def)
  from e p u k show ?thesis by blast
qed

theorem resolveKnock_unguarded_witness:
  "map p_username (peers (resolveKnock ''Z'' True host_demo)) = [''Ann'', ''B'', ''Z'']
   \<and> effects (resolveKnock ''Z'' False host_demo)
       = effects host_demo @ [SendKnock (Reply ''Z'' False) None]"
proof -
  have h: "find (\<lambda>k. k_peerId k = ''Z'') (pendingKnocks host_demo) = None" by code_simp
  have sk: "sendKnockMsg host_demo" by code_simp
  have np: "find (\<lambda>p. peerId p = ''Z'') (peers host_demo) = None" by code_simp
  have ps: "map p_username (peers host_demo) = [''Ann'', ''B'']" by code_simp
  from resolveKnock_unguarded[OF h, of False] sk
  have 1: "effects (resolveKnock ''Z'' False host_demo)
       = effects host_demo @ [SendKnock (Reply ''Z'' False) None]" by simp
  from resolveKnock_unguarded[OF h, of True] np
  have 2: "peers (resolveKnock ''Z'' True host_demo) = peers host_demo @ [makePeer ''Z'' None]"
    by simp
  from 1 2 ps show ?thesis by (simp add: makePeer_def or_else_def)
qed

subsection \<open>Rejection\<close>

text \<open>
  Claim C5, as the code has it. A \<open>reply\<close> addressed to the client with
  \<open>approved = false\<close> shows the rejected view and arms a timer of 2000 ms, the room code
  unchanged. When that timer fires, the client leaves and creates a room: it is admitted,
  it is the creator, alone in the roster, and the room code is the code \<open>genCode\<close> draws
  then, four characters of the alphabet. Nothing compares the new code with the rejected
  room's code.
\<close>

theorem rejection_recovery:
  "view (getKnock (Reply (selfId s) False) sender s) = VRejected
   \<and> timers (getKnock (Reply (selfId s) False) sender s)
       = timers s @ [(nextTimer s, 2000, RejectCallback)]
   \<and> roomCode (getKnock (Reply (selfId s) False) sender s) = roomCode s
   \<and> (find (\<lambda>t. fst t = h) (timers s') = Some (h, d, RejectCallback) \<longrightarrow>
        fireTimer h draws mic s' = createRoom draws mic (leaveRoom (clearTimeout h s'))
        \<and> roomCode (fireTimer h draws mic s') = genCode draws
        \<and> admitted (fireTimer h draws mic s')
        \<and> creatorId (fireTimer h draws mic s') = Some (selfId s')
        \<and> view (fireTimer h draws mic s') = VRoom
        \<and> peers (fireTimer h draws mic s') = [makePeer (selfId s') (Some (username s'))]
        \<and> pendingKnocks (fireTimer h draws mic s') = [])
   \<and> (length draws = 4 \<and> list_all (\<lambda>d. d < 32) draws \<longrightarrow>
        length (genCode draws) = 4 \<and> set (genCode draws) \<subseteq> set chars)"
proof -
  have a: "view (getKnock (Reply (selfId s) False) sender s) = VRejected"
    "timers (getKnock (Reply (selfId s) False) sender s)
       = timers s @ [(nextTimer s, 2000, RejectCallback)]"
    "roomCode (getKnock (Reply (selfId s) False) sender s) = roomCode s"
    by (simp_all add: getKnock_def setTimeout_def)
  have b: "fireTimer h draws mic s' = createRoom draws mic (leaveRoom (clearTimeout h s'))"
    if "find (\<lambda>t. fst t = h) (timers s') = Some (h, d, RejectCallback)"
    using that by (simp add: fireTimer_def rejectCallback_def Let_def)
  have l: "selfId (leaveRoom (clearTimeout h s')) = selfId s'"
    "username (leaveRoom (clearTimeout h s')) = username s'"
    "pendingKnocks (leaveRoom (clearTimeout h s')) = []"
    by (simp_all add: leaveRoom_def cleanup_def destroyAudio_def clearTimeout_def Let_def
      split: option.split)
  show ?thesis
    using a b createRoom_fields[of draws mic "leaveRoom (clearTimeout h s')"] l genCode_wf[of draws]
    by simp
qed

theorem rejection_recovery_witness:
  "view (getKnock (Reply ''me'' False) ''A'' knocker_demo) = VRejected
   \<and> roomCode (fireTimer 2 [1, 2, 3, 4] True (getKnock (Reply ''me'' False) ''A'' knocker_demo))
       = ''BCDE''"
proof -
  have sid: "selfId knocker_demo = ''me''" by code_simp
  have f: "find (\<lambda>t. fst t = 2) (timers (getKnock (Reply ''me'' False) ''A'' knocker_demo))
             = Some (2, 2000, RejectCallback)" by code_simp
  have g: "genCode [1, 2, 3, 4] = ''BCDE''" by code_simp
  note r = rejection_recovery[where s = knocker_demo and sender = "''A''" and h = 2
      and s' = "getKnock (Reply ''me'' False) ''A'' knocker_demo" and d = 2000
      and draws = "[1, 2, 3, 4]" and mic = True]
  from r have v: "view (getKnock (Reply (selfId knocker_demo) False) ''A'' knocker_demo) = VRejected"
    by blast
  from r f have c: "roomCode (fireTimer 2 [1, 2, 3, 4] True
      (getKnock (Reply ''me'' False) ''A'' knocker_demo)) = genCode [1, 2, 3, 4]"
    by blast
  from v c g show ?thesis by (simp add: sid)
qed

text \<open>
  The claim C5 as stated fails: a client rejected from the room \<open>AAAA\<close> whose four draws
  are all 0 creates the room \<open>AAAA\<close> again.
\<close>

theorem rejection_same_code:
  "view (getKnock (Reply ''me'' False) ''A'' knocker_demo) = VRejected
   \<and> roomCode (getKnock (Reply ''me'' False) ''A'' knocker_demo) = ''AAAA''
   \<and> roomCode (fireTimer 2 [0, 0, 0, 0] True (getKnock (Reply ''me'' False) ''A'' knocker_demo))
       = ''AAAA''"
  by code_simp

subsection \<open>Leaving\<close>



subsection \<open>Whisper routing\<close>

text \<open>What the routing does where it is applied: after \<open>startWhisper\<close> every roster
  peer but the client is on the real track exactly when it is the target, after
  \<open>stopWhisper\<close> every one is on the real track, and with knocking off a peer that
  joins during a whisper to someone else is silenced.\<close>

lemma current_track_emit: "current_track (emit e s) q = current_track s q"
  by (simp add: current_track_def emit_def)

lemma track_cases: "t \<noteq> SilentTrack \<Longrightarrow> t = RealTrack"
  by (cases t) simp_all

lemma route_whisper_track:
  "current_track (route_whisper t st p) q =
     (if q = peerId p \<and> q \<noteq> selfId st
      then (if q = t then RealTrack else SilentTrack)
      else current_track st q)"
  by (auto simp: route_whisper_def current_track_def emit_def
      split: option.split dest: track_cases)

lemma route_normal_track:
  "current_track (route_normal st p) q =
     (if q = peerId p \<and> q \<noteq> selfId st then RealTrack else current_track st q)"
  by (auto simp: route_normal_def current_track_def emit_def
      split: option.split dest: track_cases)

lemma fold_route_whisper_track:
  "current_track (foldl (route_whisper t) st ps) q =
     (if q \<in> peerId ` set ps \<and> q \<noteq> selfId st
      then (if q = t then RealTrack else SilentTrack)
      else current_track st q)"
proof (induction ps rule: rev_induct)
  case Nil
  then show ?case by simp
next
  case (snoc p ps)
  have "selfId (foldl (route_whisper t) st ps) = selfId st"
    by (simp add: selfId_foldl selfId_bodies)
  with snoc show ?case by (auto simp: route_whisper_track)
qed

lemma fold_route_normal_track:
  "current_track (foldl route_normal st ps) q =
     (if q \<in> peerId ` set ps \<and> q \<noteq> selfId st then RealTrack else current_track st q)"
proof (induction ps rule: rev_induct)
  case Nil
  then show ?case by simp
next
  case (snoc p ps)
  have "selfId (foldl route_normal st ps) = selfId st"
    by (simp add: selfId_foldl selfId_bodies)
  with snoc show ?case by (auto simp: route_normal_track)
qed

lemma startWhisper_routes:
  assumes "getRealTrack s" "getSilentTrack s" "room s" "getStream s"
    and "q \<in> peerId ` set (peers s)" "q \<noteq> selfId s"
  shows "current_track (startWhisper t s) q = (if q = t then RealTrack else SilentTrack)"
    and "activeWhisperTarget (startWhisper t s) = Some t"
proof -
  let ?s1 = "s\<lparr>activeWhisperTarget := Some t, trackEnabled := True\<rparr>"
  have a: "activeWhisperTarget (foldl (route_whisper t) st ps) = activeWhisperTarget st" for st ps
    by (induction ps arbitrary: st) (simp_all add: route_whisper_def emit_def)
  have e: "startWhisper t s = emit (SendWhisper True t) (foldl (route_whisper t) ?s1 (peers s))"
    using assms(1-4) by (simp add: startWhisper_def Let_def)
  show "current_track (startWhisper t s) q = (if q = t then RealTrack else SilentTrack)"
    using assms(5,6) by (simp add: e current_track_emit fold_route_whisper_track)
  show "activeWhisperTarget (startWhisper t s) = Some t"
    by (simp add: e a emit_def)
qed

lemma stopWhisper_routes:
  assumes "getRealTrack s" "getSilentTrack s" "room s" "getStream s"
    and "q \<in> peerId ` set (peers s)" "q \<noteq> selfId s"
  shows "current_track (stopWhisper t s) q = RealTrack"
proof -
  let ?s1 = "s\<lparr>activeWhisperTarget := None, trackEnabled := False\<rparr>"
  have e: "stopWhisper t s = emit (SendWhisper False t) (foldl route_normal ?s1 (peers s))"
    using assms(1-4) by (simp add: stopWhisper_def Let_def)
  show ?thesis using assms(5,6) by (simp add: e current_track_emit fold_route_normal_track)
qed

lemma join_without_knock_silenced:
  assumes "admitted s" "\<not> knockEnabled s" "getStream s" "getSilentTrack s"
    and "activeWhisperTarget s = Some t" "t \<noteq> []" "pid \<noteq> t"
  shows "current_track (onPeerJoin pid s) pid = SilentTrack"
  using assms
  by (simp add: onPeerJoin_def Let_def emit_def sendKnock_def getStream_def getRealTrack_def
      getSilentTrack_def truthy_def current_track_def)

text \<open>
  Claim C1 at a reachable state. The client \<open>me\<close> creates a room, \<open>B\<close> joins, \<open>me\<close> turns
  knocking on and whispers to \<open>B\<close>; then \<open>C\<close> joins. The join is handled by the knock
  branch of the peer-join handler, which sends \<open>C\<close> the stream and never replaces its
  track: \<open>C\<close> is not silenced, and once \<open>C\<close> is approved the roster holds two peers on the
  real track while the whisper to \<open>B\<close> is active. With knocking off the same join
  silences \<open>C\<close>.
\<close>

theorem knock_join_mid_whisper_not_silenced:
  "activeWhisperTarget
     (run [Boot None [0, 0, 0, 0] True, PeerJoin ''B'', ToggleKnockMode, WhisperStart ''B'',
           PeerJoin ''C''] (initial ''me'' False ''Ann'')) = Some ''B''
   \<and> current_track
     (run [Boot None [0, 0, 0, 0] True, PeerJoin ''B'', ToggleKnockMode, WhisperStart ''B'',
           PeerJoin ''C''] (initial ''me'' False ''Ann'')) ''C'' = RealTrack
   \<and> filter (\<lambda>e. e = AddStream ''C'' \<or> e = ReplaceTrack RealTrack SilentTrack ''C'')
      (effects
        (run [Boot None [0, 0, 0, 0] True, PeerJoin ''B'', ToggleKnockMode, WhisperStart ''B'',
              PeerJoin ''C''] (initial ''me'' False ''Ann''))) = [AddStream ''C'']
   \<and> map (\<lambda>p. (peerId p,
              current_track
                (run [Boot None [0, 0, 0, 0] True, PeerJoin ''B'', ToggleKnockMode,
                      WhisperStart ''B'', PeerJoin ''C'', ResolveKnock ''C'' True]
                   (initial ''me'' False ''Ann'')) (peerId p)))
      (peers
        (run [Boot None [0, 0, 0, 0] True, PeerJoin ''B'', ToggleKnockMode, WhisperStart ''B'',
              PeerJoin ''C'', ResolveKnock ''C'' True] (initial ''me'' False ''Ann'')))
      = [(''me'', RealTrack), (''B'', RealTrack), (''C'', RealTrack)]
   \<and> activeWhisperTarget
     (run [Boot None [0, 0, 0, 0] True, PeerJoin ''B'', ToggleKnockMode, WhisperStart ''B'',
           PeerJoin ''C'', ResolveKnock ''C'' True] (initial ''me'' False ''Ann'')) = Some ''B''
   \<and> current_track
     (run [Boot None [0, 0, 0, 0] True, PeerJoin ''B'', WhisperStart ''B'', PeerJoin ''C'']
        (initial ''me'' False ''Ann'')) ''C'' = SilentTrack"
  by code_simp

subsection \<open>The roster holds a peer once\<close>

lemma map_fst_pp_set:
  "map fst (pp_set p u m) = (if p \<in> fst ` set m then map fst m else map fst m @ [p])"
  by (induction m) (auto simp: pp_set_def)

lemma roster_inv_emit: "roster_inv (emit e s) = roster_inv s"
  by (simp add: roster_inv_def emit_def)

lemma roster_inv_sendKnock: "roster_inv (sendKnock m d s) = roster_inv s"
  by (simp add: roster_inv_def sendKnock_def)

lemma roster_inv_removeKnock: "roster_inv (removeKnock p s) = roster_inv s"
  by (simp add: roster_inv_def removeKnock_def)

lemma peerId_apply_update: "peerId (apply_update u p) = peerId p"
  by (cases u) (simp_all add: apply_update_def)

lemma peerId_update_comp:
  "(peerId \<circ> (\<lambda>q. if peerId q = p then apply_update u q else q)) = peerId"
  by (auto simp: fun_eq_iff peerId_apply_update)

lemma peerIds_updatePeer: "map peerId (peers (updatePeer p u s)) = map peerId (peers s)"
  by (simp add: updatePeer_def peerId_update_comp)

lemma roster_inv_updatePeer: "roster_inv (updatePeer p u s) = roster_inv s"
proof -
  have "pendingPeerInfo (updatePeer p u s) = pendingPeerInfo s" "selfId (updatePeer p u s) = selfId s"
    by (simp_all add: updatePeer_def)
  then show ?thesis by (simp only: roster_inv_def peerIds_updatePeer)
qed

lemma distinct_updatePeer:
  "distinct (map peerId (peers s)) \<Longrightarrow> distinct (map peerId (peers (updatePeer p u s)))"
  by (simp only: peerIds_updatePeer)

lemma distinct_moveKnockToPeers:
  "distinct (map peerId (peers s)) \<Longrightarrow> distinct (map peerId (peers (moveKnockToPeers p s)))"
  by (auto simp: moveKnockToPeers_def Let_def find_None_peerId peerId_makePeer)

lemma roster_inv_moveKnockToPeers: "roster_inv s \<Longrightarrow> roster_inv (moveKnockToPeers p s)"
  by (auto simp: roster_inv_def moveKnockToPeers_def Let_def find_None_peerId peerId_makePeer)

lemma peerId_of_pending: "(\<lambda>x. peerId (case x of (pid, n) \<Rightarrow> makePeer pid (Some n))) = fst"
  by (auto simp: fun_eq_iff peerId_makePeer)

lemma roster_inv_admitSelf: "roster_inv s \<Longrightarrow> roster_inv (admitSelf s)"
proof (cases "admitted s")
  case True
  then show "roster_inv s \<Longrightarrow> roster_inv (admitSelf s)" by (simp add: admitSelf_def)
next
  case False
  assume inv: "roster_inv s"
  let ?s1 = "case admitTimeout s of None \<Rightarrow> s | Some h \<Rightarrow> (clearTimeout h s)\<lparr>admitTimeout := None\<rparr>"
  have s1: "selfId ?s1 = selfId s" "pendingPeerInfo ?s1 = pendingPeerInfo s"
    by (simp_all add: clearTimeout_def split: option.split)
  let ?s3 = "?s1\<lparr>admitted := True, view := VRoom,
                    peers := makePeer (selfId ?s1) (Some (username ?s1))
                             # map (\<lambda>(pid, n). makePeer pid (Some n)) (pendingPeerInfo ?s1),
                    pendingPeerInfo := []\<rparr>"
  have 3: "roster_inv ?s3"
    using inv by (simp add: roster_inv_def s1 peerId_makePeer comp_def peerId_of_pending)
  have body: "roster_inv st \<Longrightarrow> roster_inv (addStream_unless_self st p)" for st p
    by (simp add: addStream_unless_self_def roster_inv_emit)
  have "roster_inv (foldl addStream_unless_self ?s3 (peers ?s3))"
    using body 3 by (rule foldl_inv)
  then show "roster_inv (admitSelf s)"
    using False 3 by (simp add: admitSelf_def Let_def)
qed

lemma roster_inv_setupRoom: "roster_inv s \<Longrightarrow> roster_inv (setupRoom c s)"
  by (simp add: roster_inv_def setupRoom_def Let_def peerId_makePeer)

lemma roster_inv_initAudio: "roster_inv (initAudio_or_fallback mic s) = roster_inv s"
  by (simp add: roster_inv_def initAudio_or_fallback_def)

lemma roster_inv_createRoom_begin: "roster_inv (createRoom_begin s) = roster_inv s"
  by (simp add: roster_inv_def createRoom_begin_def)

lemma roster_inv_createRoom_resume: "roster_inv s \<Longrightarrow> roster_inv (createRoom_resume c mic s)"
proof -
  assume "roster_inv s"
  then have "roster_inv (setupRoom c (initAudio_or_fallback mic s))"
    by (simp add: roster_inv_setupRoom roster_inv_initAudio)
  then show ?thesis by (simp add: createRoom_resume_def Let_def roster_inv_def)
qed

lemma roster_inv_createRoom: "roster_inv s \<Longrightarrow> roster_inv (createRoom d mic s)"
  by (simp add: createRoom_def roster_inv_createRoom_begin roster_inv_createRoom_resume)

lemma roster_inv_joinRoom_begin: "roster_inv (joinRoom_begin c s) = roster_inv s"
  by (simp add: roster_inv_def joinRoom_begin_def Let_def)

lemma roster_inv_joinRoom_resume: "roster_inv s \<Longrightarrow> roster_inv (joinRoom_resume c mic s)"
proof -
  assume inv: "roster_inv s"
  then have "roster_inv (setupRoom c' (initAudio_or_fallback mic s))" for c'
    by (simp add: roster_inv_setupRoom roster_inv_initAudio)
  then have "roster_inv ((snd (setTimeout cb d (setupRoom c'
      (initAudio_or_fallback mic s))))\<lparr>admitTimeout := Some h\<rparr>)" for c' cb d h
    by (simp add: setTimeout_def roster_inv_def)
  then show ?thesis using inv
    by (simp add: joinRoom_resume_def Let_def split_beta setTimeout_def)
qed

lemma roster_inv_joinRoom: "roster_inv s \<Longrightarrow> roster_inv (joinRoom c mic s)"
  by (simp add: joinRoom_def roster_inv_joinRoom_begin roster_inv_joinRoom_resume)

lemma roster_inv_leaveRoom: "roster_inv (leaveRoom s)"
  by (simp add: roster_inv_def leaveRoom_def Let_def)

lemma roster_inv_trackState: "roster_inv (st\<lparr>peerTrackState := m\<rparr>) = roster_inv st"
  by (simp add: roster_inv_def)

lemma roster_inv_startWhisper: "roster_inv s \<Longrightarrow> roster_inv (startWhisper t s)"
proof -
  assume inv: "roster_inv s"
  let ?s1 = "s\<lparr>activeWhisperTarget := Some t, trackEnabled := True\<rparr>"
  have 1: "roster_inv ?s1" using inv by (simp add: roster_inv_def)
  have body: "roster_inv st \<Longrightarrow> roster_inv (route_whisper t st p)" for st p
    by (simp add: route_whisper_def roster_inv_trackState roster_inv_emit)
  have "roster_inv (foldl (route_whisper t) ?s1 (peers ?s1))"
    using body 1 by (rule foldl_inv)
  then show ?thesis using inv by (simp add: startWhisper_def Let_def roster_inv_emit)
qed

lemma roster_inv_stopWhisper: "roster_inv s \<Longrightarrow> roster_inv (stopWhisper t s)"
proof -
  assume inv: "roster_inv s"
  let ?s1 = "s\<lparr>activeWhisperTarget := None, trackEnabled := False\<rparr>"
  have 1: "roster_inv ?s1" using inv by (simp add: roster_inv_def)
  have body: "roster_inv st \<Longrightarrow> roster_inv (route_normal st p)" for st p
    by (simp add: route_normal_def roster_inv_trackState roster_inv_emit)
  have "roster_inv (foldl route_normal ?s1 (peers ?s1))"
    using body 1 by (rule foldl_inv)
  then show ?thesis using inv by (simp add: stopWhisper_def Let_def roster_inv_emit)
qed

lemma roster_inv_whisperStart: "roster_inv s \<Longrightarrow> roster_inv (whisperStart t s)"
proof -
  assume inv: "roster_inv s"
  then have "roster_inv (s\<lparr>whisperTarget := Some t\<rparr>)" by (simp add: roster_inv_def)
  then show ?thesis using inv by (simp add: whisperStart_def roster_inv_startWhisper)
qed

lemma roster_inv_whisperStop: "roster_inv s \<Longrightarrow> roster_inv (whisperStop s)"
proof -
  assume inv: "roster_inv s"
  then have "roster_inv (s\<lparr>whisperTarget := None\<rparr>)" by (simp add: roster_inv_def)
  then show ?thesis using inv by (simp add: whisperStop_def roster_inv_stopWhisper)
qed

lemma roster_inv_knocks: "roster_inv (st\<lparr>pendingKnocks := K\<rparr>) = roster_inv st"
  by (simp add: roster_inv_def)

lemma roster_inv_toggleKnockMode: "roster_inv s \<Longrightarrow> roster_inv (toggleKnockMode s)"
proof -
  assume inv: "roster_inv s"
  have 1: "roster_inv (s\<lparr>knockEnabled := b\<rparr>)" for b
    using inv by (simp add: roster_inv_def)
  have body: "roster_inv st \<Longrightarrow> roster_inv (reply_and_promote st k)" for st k
    by (simp add: reply_and_promote_def roster_inv_moveKnockToPeers roster_inv_sendKnock)
  have "roster_inv (foldl reply_and_promote (s\<lparr>knockEnabled := b\<rparr>) ks)" for b ks
    using body 1 by (rule foldl_inv)
  then show ?thesis using inv 1
    by (simp add: toggleKnockMode_def Let_def roster_inv_sendKnock roster_inv_knocks)
qed

lemma roster_inv_resolveKnock: "roster_inv s \<Longrightarrow> roster_inv (resolveKnock p a s)"
  by (simp add: resolveKnock_def Let_def roster_inv_removeKnock roster_inv_moveKnockToPeers
      roster_inv_sendKnock)

lemma roster_inv_getKnock: "roster_inv s \<Longrightarrow> roster_inv (getKnock m p s)"
proof -
  assume inv: "roster_inv s"
  have t: "roster_inv (snd (setTimeout cb d (s\<lparr>view := v\<rparr>)))" for cb d v
    using inv by (simp add: setTimeout_def roster_inv_def)
  show ?thesis
  proof (cases m)
    case (Mode b c)
    have 1: "roster_inv (s\<lparr>knockEnabled := b', creatorId := Some c\<rparr>)" for b'
      using inv by (simp add: roster_inv_def)
    have body: "roster_inv st \<Longrightarrow> roster_inv (promote_knock st k)" for st k
      by (simp add: promote_knock_def roster_inv_moveKnockToPeers)
    have "roster_inv (foldl promote_knock (s\<lparr>knockEnabled := b', creatorId := Some c\<rparr>) ks)"
      for b' ks
      using body 1 by (rule foldl_inv)
    then show ?thesis using Mode 1 by (simp add: getKnock_def Let_def roster_inv_knocks)
  next
    case (Reply t a)
    then show ?thesis using inv t
      by (simp add: getKnock_def roster_inv_admitSelf roster_inv_removeKnock
          roster_inv_moveKnockToPeers)
  qed (simp_all add: getKnock_def roster_inv_admitSelf inv)
qed

lemma roster_inv_onPeerJoin:
  "roster_inv s \<Longrightarrow> pid \<noteq> selfId s \<Longrightarrow> roster_inv (onPeerJoin pid s)"
proof -
  assume inv: "roster_inv s" and ne: "pid \<noteq> selfId s"
  have add: "roster_inv (s\<lparr>peers := peers s @ [makePeer pid None]\<rparr>)"
    if "find (\<lambda>p. peerId p = pid) (peers s) = None"
    using that inv by (auto simp: roster_inv_def find_None_peerId peerId_makePeer)
  have pp: "roster_inv (s\<lparr>pendingPeerInfo := pp_set pid pid (pendingPeerInfo s)\<rparr>)"
    using inv ne by (auto simp: roster_inv_def map_fst_pp_set simp flip: set_map)
  show ?thesis
    using inv add pp
    by (simp add: onPeerJoin_def Let_def roster_inv_emit roster_inv_sendKnock roster_inv_knocks
        roster_inv_trackState)
qed

lemma roster_inv_onPeerLeave: "roster_inv s \<Longrightarrow> roster_inv (onPeerLeave pid s)"
  by (auto simp: roster_inv_def onPeerLeave_def Let_def removeKnock_def removeRemoteAudio_def
      distinct_map_filter)

lemma roster_inv_onPeerStream: "roster_inv s \<Longrightarrow> roster_inv (onPeerStream pid s)"
  by (simp add: roster_inv_def onPeerStream_def)

lemma roster_inv_getUsername: "roster_inv s \<Longrightarrow> roster_inv (getUsername n pid s)"
proof -
  assume inv: "roster_inv s"
  have pp: "roster_inv (st\<lparr>pendingPeerInfo := pp_set pid n (pendingPeerInfo st)\<rparr>)"
    if "roster_inv st" "pid \<in> fst ` set (pendingPeerInfo st)" for st
    using that by (auto simp: roster_inv_def map_fst_pp_set simp flip: set_map)
  let ?s1 = "updatePeer pid (SetUsername n) s"
  let ?s2 = "if list_ex (\<lambda>k. k_peerId k = pid) (pendingKnocks ?s1)
             then ?s1\<lparr>pendingKnocks :=
                     map (\<lambda>k. if k_peerId k = pid then k\<lparr>k_username := n\<rparr> else k)
                       (pendingKnocks ?s1)\<rparr>
             else ?s1"
  have 2: "roster_inv ?s2" using inv by (simp add: roster_inv_updatePeer roster_inv_knocks)
  have "getUsername n pid s =
      (if pid \<in> fst ` set (pendingPeerInfo ?s2)
       then ?s2\<lparr>pendingPeerInfo := pp_set pid n (pendingPeerInfo ?s2)\<rparr> else ?s2)"
    by (simp add: getUsername_def Let_def)
  then show ?thesis using 2 pp[OF 2] by presburger
qed

lemma roster_inv_fireTimer: "roster_inv s \<Longrightarrow> roster_inv (fireTimer h d mic s)"
proof -
  assume inv: "roster_inv s"
  have c: "roster_inv (clearTimeout h s)" using inv by (simp add: roster_inv_def clearTimeout_def)
  have a: "roster_inv (admitCallback (clearTimeout h s))"
  proof -
    have "roster_inv ((clearTimeout h s)\<lparr>creatorId := Some (selfId (clearTimeout h s))\<rparr>)"
      using c by (simp add: roster_inv_def)
    then show ?thesis using c by (simp add: admitCallback_def roster_inv_admitSelf)
  qed
  have r: "roster_inv (rejectCallback d mic (clearTimeout h s))"
    by (simp add: rejectCallback_def roster_inv_createRoom roster_inv_leaveRoom)
  show ?thesis using inv a r
    by (simp add: fireTimer_def Let_def split: option.split timer_cb.split)
qed

lemma roster_inv_fireTimer_begin: "roster_inv s \<Longrightarrow> roster_inv (fireTimer_begin h s)"
proof -
  assume inv: "roster_inv s"
  have c: "roster_inv (clearTimeout h s)" using inv by (simp add: roster_inv_def clearTimeout_def)
  have a: "roster_inv (admitCallback (clearTimeout h s))"
  proof -
    have "roster_inv ((clearTimeout h s)\<lparr>creatorId := Some (selfId (clearTimeout h s))\<rparr>)"
      using c by (simp add: roster_inv_def)
    then show ?thesis using c by (simp add: admitCallback_def roster_inv_admitSelf)
  qed
  have r: "roster_inv (createRoom_begin (leaveRoom (clearTimeout h s)))"
    by (simp add: roster_inv_createRoom_begin roster_inv_leaveRoom)
  show ?thesis using inv a r
    by (simp add: fireTimer_begin_def Let_def split: option.split timer_cb.split)
qed

lemma roster_inv_step:
  "roster_inv s \<Longrightarrow> remote_event (selfId s) e \<Longrightarrow> roster_inv (step e s)"
  by (cases e)
     (simp_all add: step_def remote_event_def roster_inv_onPeerJoin roster_inv_onPeerLeave
        roster_inv_onPeerStream roster_inv_getUsername getTalking_def getWhisper_def
        getRename_def getIdle_def roster_inv_updatePeer roster_inv_getKnock
        roster_inv_whisperStart roster_inv_whisperStop roster_inv_toggleKnockMode
        roster_inv_resolveKnock roster_inv_createRoom roster_inv_joinRoom roster_inv_leaveRoom
        roster_inv_fireTimer roster_inv_createRoom_begin roster_inv_createRoom_resume
        roster_inv_joinRoom_begin roster_inv_joinRoom_resume roster_inv_fireTimer_begin
        split: option.split)

lemma roster_inv_run:
  "roster_inv s \<Longrightarrow> list_all (remote_event (selfId s)) es \<Longrightarrow> roster_inv (run es s)"
proof (induction es rule: rev_induct)
  case Nil
  then show ?case by (simp add: run_def)
next
  case (snoc e es)
  then have "roster_inv (run es s)" and "remote_event (selfId (run es s)) e"
    by (simp_all add: selfId_run)
  then show ?case by (simp add: run_snoc roster_inv_step)
qed

lemma roster_inv_initial: "roster_inv (initial sid off uname)"
  by (simp add: roster_inv_def initial_def)

text \<open>
  Claim C8. Starting from the initial state, no sequence of transport events, messages,
  timer firings and user operations leaves two roster entries with the same identifier,
  the transport reporting other clients only (a peer-join never carries the client's own
  identifier). Each operation that writes the roster keeps its identifiers distinct:
  \<open>updatePeer\<close> and \<open>moveKnockToPeers\<close> on any roster, \<open>admitSelf\<close> and the
  peer-join handler where \<open>pendingPeerInfo\<close> has distinct keys other than the client.
\<close>

theorem roster_unique:
  assumes "list_all (remote_event sid) es"
  shows "distinct (map peerId (peers (run es (initial sid off uname))))
       \<and> (distinct (map peerId (peers s)) \<longrightarrow>
            distinct (map peerId (peers (updatePeer pid u s)))
            \<and> distinct (map peerId (peers (moveKnockToPeers pid s))))
       \<and> (roster_inv s \<longrightarrow>
            distinct (map peerId (peers (admitSelf s)))
            \<and> (pid \<noteq> selfId s \<longrightarrow> distinct (map peerId (peers (onPeerJoin pid s)))))"
proof -
  have "selfId (initial sid off uname) = sid" by (simp add: initial_def)
  with assms roster_inv_run[OF roster_inv_initial, of sid off uname es]
  have "roster_inv (run es (initial sid off uname))" by simp
  then have 1: "distinct (map peerId (peers (run es (initial sid off uname))))"
    by (simp add: roster_inv_def)
  have 2: "distinct (map peerId (peers s)) \<longrightarrow>
            distinct (map peerId (peers (updatePeer pid u s)))
            \<and> distinct (map peerId (peers (moveKnockToPeers pid s)))"
    using distinct_updatePeer distinct_moveKnockToPeers by blast
  have 3: "roster_inv s \<longrightarrow>
            distinct (map peerId (peers (admitSelf s)))
            \<and> (pid \<noteq> selfId s \<longrightarrow> distinct (map peerId (peers (onPeerJoin pid s))))"
    using roster_inv_admitSelf[of s] roster_inv_onPeerJoin[of s pid]
    by (auto simp: roster_inv_def)
  from 1 2 3 show ?thesis by blast
qed

theorem roster_unique_witness:
  "map peerId (peers (run [Boot (Some ''aaaa'') [] True, PeerJoin ''A'', PeerJoin ''B'',
       PeerJoin ''A'', GotKnock Admitted ''A'', PeerJoin ''B'', GotKnock (Reply ''B'' True) ''A'']
      (initial ''me'' False ''Ann''))) = [''me'', ''A'', ''B'']
   \<and> distinct (map peerId (peers (run [Boot (Some ''aaaa'') [] True, PeerJoin ''A'', PeerJoin ''B'',
       PeerJoin ''A'', GotKnock Admitted ''A'', PeerJoin ''B'', GotKnock (Reply ''B'' True) ''A'']
      (initial ''me'' False ''Ann''))))"
proof -
  have h: "list_all (remote_event ''me'') [Boot (Some ''aaaa'') [] True, PeerJoin ''A'',
       PeerJoin ''B'', PeerJoin ''A'', GotKnock Admitted ''A'', PeerJoin ''B'',
       GotKnock (Reply ''B'' True) ''A'']"
    by (simp add: remote_event_def)
  have ev: "map peerId (peers (run [Boot (Some ''aaaa'') [] True, PeerJoin ''A'', PeerJoin ''B'',
       PeerJoin ''A'', GotKnock Admitted ''A'', PeerJoin ''B'', GotKnock (Reply ''B'' True) ''A'']
      (initial ''me'' False ''Ann''))) = [''me'', ''A'', ''B'']"
    by code_simp
  from roster_unique[OF h, of False "''Ann''"] ev show ?thesis by blast
qed

subsection \<open>The admission timer\<close>

lemma core_basic:
  "core (emit e s) = core s" "core (sendKnock m d s) = core s"
  "core (removeKnock p s) = core s" "core (updatePeer p u s) = core s"
  "core (moveKnockToPeers p s) = core s"
  "core (onPeerLeave p s) = core s" "core (onPeerStream p s) = core s"
  "core (getUsername n p s) = core s" "core (onPeerJoin p s) = core s"
  by (simp_all add: core_def emit_def sendKnock_def removeKnock_def updatePeer_def
      moveKnockToPeers_def onPeerLeave_def removeRemoteAudio_def onPeerStream_def
      getUsername_def onPeerJoin_def Let_def)

lemma core_foldl:
  assumes "\<And>x st. core (f st x) = core st"
  shows "core (foldl f s xs) = core s"
  by (induction xs arbitrary: s) (simp_all add: assms)

lemma core_update:
  "core (s\<lparr>peerTrackState := m\<rparr>) = core s" "core (s\<lparr>pendingKnocks := K\<rparr>) = core s"
  "core (s\<lparr>knockEnabled := b\<rparr>) = core s" "core (s\<lparr>creatorId := c\<rparr>) = core s"
  "core (s\<lparr>whisperTarget := w\<rparr>) = core s" "core (s\<lparr>activeWhisperTarget := w\<rparr>) = core s"
  "core (s\<lparr>trackEnabled := b\<rparr>) = core s" "core (s\<lparr>view := v\<rparr>) = core s"
  by (simp_all add: core_def)

lemma core_bodies:
  "core (addStream_unless_self st p) = core st" "core (promote_knock st k) = core st"
  "core (reply_and_promote st k) = core st" "core (route_whisper t st p) = core st"
  "core (route_normal st p) = core st"
  by (simp_all add: addStream_unless_self_def promote_knock_def reply_and_promote_def
      route_whisper_def route_normal_def core_basic core_update)

lemma core_whisper:
  "core (startWhisper t s) = core s" "core (stopWhisper t s) = core s"
  "core (whisperStart t s) = core s" "core (whisperStop s) = core s"
  by (simp_all add: startWhisper_def stopWhisper_def whisperStart_def whisperStop_def Let_def
      core_foldl core_bodies core_basic core_update)

lemma core_toggleKnockMode: "core (toggleKnockMode s) = core s"
  by (simp add: toggleKnockMode_def Let_def core_foldl core_bodies core_basic core_update)

lemma core_resolveKnock: "core (resolveKnock p a s) = core s"
  by (simp add: resolveKnock_def Let_def core_basic)

lemma core_getKnock_other:
  "m = Required \<or> (\<exists>b c. m = Mode b c) \<or> (\<exists>t a. m = Reply t a \<and> t \<noteq> selfId s)
   \<Longrightarrow> core (getKnock m p s) = core s"
  by (auto simp: getKnock_def Let_def core_foldl core_bodies core_basic core_update)

lemma knocking_core: "core a = core b \<Longrightarrow> knocking sid code h a = knocking sid code h b"
  by (simp add: core_def knocking_def)

lemma find_append_keep: "find P xs = Some x \<Longrightarrow> find P (xs @ ys) = Some x"
  by (induction xs) auto

lemma find_append_fresh: "list_all (\<lambda>x. \<not> P x) xs \<Longrightarrow> find P (xs @ ys) = find P ys"
  by (induction xs) auto

text \<open>A rejection arms its timer behind the live ones.\<close>

lemma knocking_reject:
  "knocking sid code h s \<Longrightarrow> knocking sid code h (getKnock (Reply (selfId s) False) p s)"
  by (simp add: knocking_def getKnock_def setTimeout_def find_append_keep)

lemma knocking_step:
  assumes "knocking sid code h s" and "quiet sid e"
  shows "knocking sid code h (step e s)"
proof -
  have sid: "selfId s = sid" using assms(1) by (simp add: knocking_def)
  have keep: "core s' = core s \<Longrightarrow> knocking sid code h s'" for s'
    using assms(1) knocking_core by blast
  show ?thesis
  proof (cases e)
    case (GotKnock m p)
    show ?thesis
    proof (cases "\<exists>t a. m = Reply t a \<and> t = selfId s")
      case True
      then obtain a where m: "m = Reply (selfId s) a" by blast
      with assms(2) GotKnock sid have "\<not> a" by simp
      with m GotKnock assms(1) show ?thesis by (simp add: step_def knocking_reject)
    next
      case False
      with assms(2) GotKnock sid
      have "m = Required \<or> (\<exists>b c. m = Mode b c) \<or> (\<exists>t a. m = Reply t a \<and> t \<noteq> selfId s)"
        by (cases m) auto
      then have "core (getKnock m p s) = core s" by (rule core_getKnock_other)
      then show ?thesis using GotKnock assms(1) by (simp add: step_def keep)
    qed
  qed (use assms in \<open>simp_all add: step_def keep core_basic core_whisper core_toggleKnockMode
        core_resolveKnock getTalking_def getWhisper_def getRename_def getIdle_def\<close>)
qed

lemma knocking_run:
  "knocking sid code h s \<Longrightarrow> list_all (quiet sid) es \<Longrightarrow> knocking sid code h (run es s)"
proof (induction es rule: rev_induct)
  case Nil
  then show ?case by (simp add: run_def)
next
  case (snoc e es)
  then show ?case by (simp add: run_snoc knocking_step)
qed

lemma code_setupRoom: "roomCode (setupRoom c s) = c" "admitted (setupRoom c s) = admitted s"
  "timers (setupRoom c s) = timers s" "nextTimer (setupRoom c s) = nextTimer s"
  "admitTimeout (setupRoom c s) = admitTimeout s"
  by (simp_all add: setupRoom_def Let_def)

lemma joinRoom_fields:
  assumes "trim (toUpperCase code) \<noteq> []"
  shows "admitted (joinRoom code mic s) = False"
    "roomCode (joinRoom code mic s) = trim (toUpperCase code)"
    "admitTimeout (joinRoom code mic s) = Some (nextTimer s)"
    "timers (joinRoom code mic s) = timers s @ [(nextTimer s, 3000, AdmitCallback)]"
    "nextTimer (joinRoom code mic s) = Suc (nextTimer s)"
    "view (joinRoom code mic s) = VKnocking"
  using assms
  by (simp_all add: joinRoom_unfold Let_def split_beta setTimeout_def code_setupRoom
      initAudio_or_fallback_def setupRoom_def)

lemma knocking_joinRoom:
  assumes "trim (toUpperCase code) \<noteq> []" and "list_all (\<lambda>t. fst t < nextTimer s) (timers s)"
  shows "knocking (selfId s) (trim (toUpperCase code)) (nextTimer s) (joinRoom code mic s)"
proof -
  have "list_all (\<lambda>t. \<not> fst t = nextTimer s) (timers s)"
    using assms(2) by (auto simp: list_all_iff)
  then have "find (\<lambda>t. fst t = nextTimer s) (timers s @ [(nextTimer s, 3000, AdmitCallback)])
      = Some (nextTimer s, 3000, AdmitCallback)"
    by (simp add: find_append_fresh)
  then show ?thesis
    using assms(1) by (simp add: knocking_def joinRoom_fields selfId_joinRoom)
qed

lemma admitSelf_fields:
  assumes "\<not> admitted s"
  shows "admitted (admitSelf s)" "view (admitSelf s) = VRoom" "roomCode (admitSelf s) = roomCode s"
    "creatorId (admitSelf s) = creatorId s" "admitTimeout (admitSelf s) = None"
    "timers (admitSelf s) = (case admitTimeout s of None \<Rightarrow> timers s
                              | Some h \<Rightarrow> filter (\<lambda>t. fst t \<noteq> h) (timers s))"
    "nextTimer (admitSelf s) = nextTimer s"
proof -
  let ?s1 = "case admitTimeout s of None \<Rightarrow> s | Some h \<Rightarrow> (clearTimeout h s)\<lparr>admitTimeout := None\<rparr>"
  let ?s3 = "?s1\<lparr>admitted := True, view := VRoom,
                    peers := makePeer (selfId ?s1) (Some (username ?s1))
                             # map (\<lambda>(pid, n). makePeer pid (Some n)) (pendingPeerInfo ?s1),
                    pendingPeerInfo := []\<rparr>"
  have c: "core (foldl addStream_unless_self ?s3 ps) = core ?s3" for ps
    by (simp add: core_foldl core_bodies)
  have o: "creatorId (foldl addStream_unless_self st ps) = creatorId st
      \<and> view (foldl addStream_unless_self st ps) = view st" for st ps
    by (induction ps arbitrary: st) (simp_all add: addStream_unless_self_def emit_def)
  have e: "admitSelf s = (if getStream ?s3 \<and> room ?s3
      then foldl addStream_unless_self ?s3 (peers ?s3) else ?s3)"
    using assms by (simp add: admitSelf_def Let_def)
  have c3: "core (admitSelf s) = core ?s3" using c e by presburger
  have s3: "core ?s3 = (True, roomCode s, selfId s, None,
      (case admitTimeout s of None \<Rightarrow> timers s | Some h \<Rightarrow> filter (\<lambda>t. fst t \<noteq> h) (timers s)),
      nextTimer s)"
    by (simp add: core_def clearTimeout_def split: option.split)
  from c3 s3 show "admitted (admitSelf s)" "roomCode (admitSelf s) = roomCode s"
    "admitTimeout (admitSelf s) = None"
    "timers (admitSelf s) = (case admitTimeout s of None \<Rightarrow> timers s
                              | Some h \<Rightarrow> filter (\<lambda>t. fst t \<noteq> h) (timers s))"
    "nextTimer (admitSelf s) = nextTimer s"
    by (simp_all add: core_def)
  have "creatorId ?s3 = creatorId s" "view ?s3 = VRoom"
    by (simp_all add: clearTimeout_def split: option.split)
  with o e show "creatorId (admitSelf s) = creatorId s" "view (admitSelf s) = VRoom"
    by presburger+
qed

lemma promoted_by_timer:
  assumes "knocking sid code h s"
  shows "admitted (fireTimer h draws mic s) \<and> creatorId (fireTimer h draws mic s) = Some sid
       \<and> roomCode (fireTimer h draws mic s) = code \<and> view (fireTimer h draws mic s) = VRoom"
proof -
  let ?s1 = "(clearTimeout h s)\<lparr>creatorId := Some (selfId (clearTimeout h s))\<rparr>"
  from assms have f: "find (\<lambda>t. fst t = h) (timers s) = Some (h, 3000, AdmitCallback)"
    and na: "\<not> admitted s" and sid: "selfId s = sid" and rc: "roomCode s = code"
    by (simp_all add: knocking_def)
  have fire: "fireTimer h draws mic s = admitSelf ?s1"
    using f na by (simp add: fireTimer_def admitCallback_def Let_def clearTimeout_def)
  have na1: "\<not> admitted ?s1" using na by (simp add: clearTimeout_def)
  have "creatorId ?s1 = Some sid" "roomCode ?s1 = code"
    using sid rc by (simp_all add: clearTimeout_def)
  with admitSelf_fields[OF na1] fire show ?thesis by simp
qed

lemma leaveRoom_timers:
  "admitTimeout (leaveRoom s) = None" "nextTimer (leaveRoom s) = nextTimer s"
  "timers (leaveRoom s) = (case admitTimeout s of None \<Rightarrow> timers s
                            | Some h \<Rightarrow> filter (\<lambda>t. fst t \<noteq> h) (timers s))"
  by (simp_all add: leaveRoom_def cleanup_def destroyAudio_def clearTimeout_def Let_def
      split: option.split)

lemma stale_timer_noop:
  "admitted s \<Longrightarrow> find (\<lambda>t. fst t = h) (timers s) = Some (h, d, AdmitCallback) \<Longrightarrow>
     fireTimer h draws mic s = clearTimeout h s"
  by (simp add: fireTimer_def admitCallback_def Let_def clearTimeout_def)

text \<open>What holds of the timer: a client that has joined and handles only events that neither
  admit it nor make it leave, join or create a room (no timer firing among them) is, once
  the admission timer held in
  \<open>admitTimeout\<close> fires, admitted, in the room view and creator of the room it joined;
  \<open>admitSelf\<close> and \<open>leaveRoom\<close> cancel the timer held in \<open>admitTimeout\<close>, and for an
  admitted client a firing admission timer only removes itself.\<close>

lemma self_promotion:
  assumes "trim (toUpperCase code) \<noteq> []" and "list_all (\<lambda>t. fst t < nextTimer s) (timers s)"
    and "list_all (quiet (selfId s)) es"
  shows "admitted (fireTimer (nextTimer s) draws mic' (run es (joinRoom code mic s)))
       \<and> creatorId (fireTimer (nextTimer s) draws mic' (run es (joinRoom code mic s)))
           = Some (selfId s)
       \<and> roomCode (fireTimer (nextTimer s) draws mic' (run es (joinRoom code mic s)))
           = trim (toUpperCase code)
       \<and> view (fireTimer (nextTimer s) draws mic' (run es (joinRoom code mic s))) = VRoom"
proof -
  have "knocking (selfId s) (trim (toUpperCase code)) (nextTimer s) (joinRoom code mic s)"
    using assms(1,2) by (rule knocking_joinRoom)
  then have "knocking (selfId s) (trim (toUpperCase code)) (nextTimer s)
      (run es (joinRoom code mic s))"
    using assms(3) by (rule knocking_run)
  then show ?thesis by (rule promoted_by_timer)
qed

text \<open>
  Claim C6 at reachable states. \<open>joinRoom\<close> stores the handle of its timer in
  \<open>admitTimeout\<close> without cancelling the timer whose handle it overwrites, and
  \<open>admitSelf\<close> and \<open>leaveRoom\<close> cancel only the timer whose handle \<open>admitTimeout\<close> holds.
  The client \<open>me\<close> is in a room; the hash changes to \<open>AAAA\<close> and, while that join awaits
  the microphone, to \<open>BBBB\<close>; both joins resume. Two admission timers are live, and
  \<open>admitTimeout\<close> holds the second.
  \<^item> An \<open>admitted\<close> message then admits the client and leaves the first timer live.
  \<^item> Leaving instead leaves the first timer live as well; when the client next joins
    \<open>CCCC\<close> and the first timer fires, the client is admitted and made creator of \<open>CCCC\<close>
    by the timer of a room it has left, the timer of the join to \<open>CCCC\<close> not having fired.
  \<^item> The same leak needs no overlap when the hash changes before the program boots
    (\<open>boot\<close> awaits \<open>initUI\<close> with the listener already registered): both calls of
    \<open>joinRoom\<close> run, the second without a \<open>leaveRoom\<close> before it.
\<close>

theorem overwritten_admission_timer_promotes:
  "timers (run [Boot None [1, 2, 3, 4] True, HashChangeBegins ''AAAA'', HashChangeBegins ''BBBB'',
                JoinResumes ''AAAA'' True, JoinResumes ''BBBB'' True]
             (initial ''me'' False ''Ann''))
     = [(1, 3000, AdmitCallback), (2, 3000, AdmitCallback)]
   \<and> admitTimeout (run [Boot None [1, 2, 3, 4] True, HashChangeBegins ''AAAA'',
                HashChangeBegins ''BBBB'', JoinResumes ''AAAA'' True, JoinResumes ''BBBB'' True]
             (initial ''me'' False ''Ann'')) = Some 2
   \<and> admitted (run [Boot None [1, 2, 3, 4] True, HashChangeBegins ''AAAA'',
                HashChangeBegins ''BBBB'', JoinResumes ''AAAA'' True, JoinResumes ''BBBB'' True,
                GotKnock Admitted ''P'']
             (initial ''me'' False ''Ann''))
   \<and> timers (run [Boot None [1, 2, 3, 4] True, HashChangeBegins ''AAAA'',
                HashChangeBegins ''BBBB'', JoinResumes ''AAAA'' True, JoinResumes ''BBBB'' True,
                GotKnock Admitted ''P'']
             (initial ''me'' False ''Ann'')) = [(1, 3000, AdmitCallback)]
   \<and> timers (run [Boot None [1, 2, 3, 4] True, HashChangeBegins ''AAAA'',
                HashChangeBegins ''BBBB'', JoinResumes ''AAAA'' True, JoinResumes ''BBBB'' True,
                KnockLeave]
             (initial ''me'' False ''Ann'')) = [(1, 3000, AdmitCallback)]
   \<and> (let s = run [Boot None [1, 2, 3, 4] True, HashChangeBegins ''AAAA'',
                HashChangeBegins ''BBBB'', JoinResumes ''AAAA'' True, JoinResumes ''BBBB'' True,
                KnockLeave, HashChange ''CCCC'' True]
             (initial ''me'' False ''Ann'')
        in (admitted s, creatorId s, roomCode s, admitTimeout s, timers s))
       = (False, None, ''CCCC'', Some 3, [(1, 3000, AdmitCallback), (3, 3000, AdmitCallback)])
   \<and> (let s = run [Boot None [1, 2, 3, 4] True, HashChangeBegins ''AAAA'',
                HashChangeBegins ''BBBB'', JoinResumes ''AAAA'' True, JoinResumes ''BBBB'' True,
                KnockLeave, HashChange ''CCCC'' True, TimerFires 1 [] True]
             (initial ''me'' False ''Ann'')
        in (admitted s, creatorId s, roomCode s, view s))
       = (True, Some ''me'', ''CCCC'', VRoom)
   \<and> timers (run [HashChange ''AAAA'' True, Boot (Some ''AAAA'') [] True, KnockLeave]
             (initial ''me'' False ''Ann'')) = [(1, 3000, AdmitCallback)]"
  by code_simp

end
